theory Spec2Isabelle
  imports Complex_Main
begin


section \<open>JavaScript string primitives used by the document processor\<close>

text \<open>
  A JavaScript string is a sequence of UTF-16 code units. It is modelled as a
  \<open>string\<close> (a list of \<open>char\<close>), each \<open>char\<close> standing for one code unit in the
  range 0..255; \<open>length\<close> therefore counts code units as \<open>.length\<close> does.
  JavaScript numbers that hold sizes and offsets are modelled as \<open>int\<close>
  (fractions, NaN and the infinities are outside the model).
\<close>

abbreviation LF :: char where "LF \<equiv> CHR 0x0A"
abbreviation CR :: char where "CR \<equiv> CHR 0x0D"

text \<open>
  The white space of \<open>String.prototype.trim\<close> and of the regular-expression class
  \<open>\s\<close>: TAB, LF, VT, FF, CR, SPACE and NBSP are its members below U+0100.
\<close>

definition is_ws :: "char \<Rightarrow> bool" where
  "is_ws c \<longleftrightarrow> c \<in> {CHR 0x09, LF, CHR 0x0B, CHR 0x0C, CR, CHR 0x20, CHR 0xA0}"

definition trim :: "string \<Rightarrow> string" where
  "trim s = rev (dropWhile is_ws (rev (dropWhile is_ws s)))"

text \<open>\<open>s.replace(/\r\n/g, '\n')\<close>: a left-to-right scan for the pair CR LF.\<close>

fun replace_crlf :: "string \<Rightarrow> string" where
  "replace_crlf (a # b # s) =
     (if a = CR \<and> b = LF then LF # replace_crlf s else a # replace_crlf (b # s))"
| "replace_crlf s = s"

text \<open>\<open>s.replace(/\r/g, '\n')\<close>.\<close>

definition replace_cr :: "string \<Rightarrow> string" where
  "replace_cr s = map (\<lambda>c. if c = CR then LF else c) s"

text \<open>
  \<open>s.replace(/\n{3,}/g, '\n\n')\<close>: the quantifier is greedy, so every maximal run
  of three or more LF is replaced by two; shorter runs stay.
\<close>

function collapse_newlines :: "string \<Rightarrow> string" where
  "collapse_newlines [] = []"
| "collapse_newlines (c # s) =
     (if c = LF then
        (let run = takeWhile (\<lambda>x. x = LF) (c # s);
             rest = dropWhile (\<lambda>x. x = LF) (c # s)
         in (if 3 \<le> length run then [LF, LF] else run) @ collapse_newlines rest)
      else c # collapse_newlines s)"
  by pat_completeness auto
termination
  by (relation "measure length") (auto simp: length_dropWhile_le less_Suc_eq_le)

text \<open>
  \<open>s.slice(a, b)\<close>: a negative index counts from the end, both are clamped to
  the string, an empty range gives the empty string.
\<close>

definition js_slice :: "string \<Rightarrow> int \<Rightarrow> int \<Rightarrow> string" where
  "js_slice s a b =
     (let len = int (length s);
          from = (if a < 0 then max (len + a) 0 else min a len);
          to = (if b < 0 then max (len + b) 0 else min b len)
      in take (nat (to - from)) (drop (nat from) s))"

text \<open>
  \<open>s.lastIndexOf(pat, position)\<close>: the greatest index \<open>i\<close> with
  \<open>i \<le> min (max position 0) (length s - length pat)\<close> at which \<open>pat\<close> occurs,
  and \<open>-1\<close> when there is none.
\<close>

definition matches_at :: "string \<Rightarrow> string \<Rightarrow> nat \<Rightarrow> bool" where
  "matches_at s pat i \<longleftrightarrow> take (length pat) (drop i s) = pat"

fun search_back :: "string \<Rightarrow> string \<Rightarrow> nat \<Rightarrow> int" where
  "search_back s pat 0 = (if matches_at s pat 0 then 0 else - 1)"
| "search_back s pat (Suc i) =
     (if matches_at s pat (Suc i) then int (Suc i) else search_back s pat i)"

definition lastIndexOf :: "string \<Rightarrow> string \<Rightarrow> int \<Rightarrow> int" where
  "lastIndexOf s pat position =
     (if length s < length pat then - 1
      else search_back s pat
             (nat (min (max position 0) (int (length s) - int (length pat)))))"

text \<open>
  \<open>s.split(/\s+/).length\<close>: one more than the number of maximal white-space
  runs of \<open>s\<close> (the pieces before, between and after the separators).
\<close>

fun ws_runs :: "bool \<Rightarrow> string \<Rightarrow> nat" where
  "ws_runs inside [] = 0"
| "ws_runs inside (c # s) =
     (if is_ws c then (if inside then 0 else 1) + ws_runs True s
      else ws_runs False s)"

definition split_ws_length :: "string \<Rightarrow> int" where
  "split_ws_length s = 1 + int (ws_runs False s)"

text \<open>The decimal numeral a template literal prints for an integer.\<close>

function show_nat :: "nat \<Rightarrow> string" where
  "show_nat n =
     (if n < 10 then [''0123456789'' ! n]
      else show_nat (n div 10) @ [''0123456789'' ! (n mod 10)])"
  by pat_completeness auto
termination
  by (relation "measure id") auto

definition show_int :: "int \<Rightarrow> string" where
  "show_int i = (if i < 0 then CHR ''-'' # show_nat (nat (- i)) else show_nat (nat i))"


section \<open>Documents and chunks\<close>

datatype source_kind = Pdf | Url | Text

datatype doc_status = Processing | Completed | Error

text \<open>
  \<open>ChunkMetadata\<close>; its optional fields \<open>page\<close>, \<open>section\<close> and \<open>heading\<close> are never
  written by the processor.
\<close>

record ChunkMetadata =
  wordCount :: int
  charCount :: int
  source :: source_kind
  documentTitle :: string

text \<open>
  \<open>DocumentChunk\<close>; the optional \<open>embedding\<close> and \<open>vectorId\<close> are never written
  by the processor. A field whose name several interfaces share carries a prefix here
  (\<open>chunk_id\<close> is the chunk's \<open>id\<close>, \<open>doc_id\<close> the document's).
\<close>

record DocumentChunk =
  chunk_id :: string
  documentId :: string
  content :: string
  index :: int
  startIndex :: int
  endIndex :: int
  metadata :: ChunkMetadata

record ChunkingOptions =
  chunkSize :: int
  chunkOverlap :: int
  minChunkSize :: int
  preserveParagraphs :: bool

definition DEFAULT_CHUNKING_OPTIONS :: ChunkingOptions where
  "DEFAULT_CHUNKING_OPTIONS =
     \<lparr>chunkSize = 1000, chunkOverlap = 200, minChunkSize = 100, preserveParagraphs = True\<rparr>"

text \<open>\<open>Partial<ChunkingOptions>\<close>: \<open>None\<close> is an absent property.\<close>

record PartialChunkingOptions =
  opt_chunkSize :: "int option"
  opt_chunkOverlap :: "int option"
  opt_minChunkSize :: "int option"
  opt_preserveParagraphs :: "bool option"

text \<open>The empty object \<open>{}\<close>, the default of the \<open>options\<close> parameter.\<close>

definition no_options :: PartialChunkingOptions where
  "no_options =
     \<lparr>opt_chunkSize = None, opt_chunkOverlap = None, opt_minChunkSize = None,
      opt_preserveParagraphs = None\<rparr>"

text \<open>The object spread \<open>{ ...defaults, ...options }\<close>.\<close>

definition spread_options :: "ChunkingOptions \<Rightarrow> PartialChunkingOptions \<Rightarrow> ChunkingOptions" where
  "spread_options d p =
     \<lparr>chunkSize = (case opt_chunkSize p of None \<Rightarrow> chunkSize d | Some v \<Rightarrow> v),
      chunkOverlap = (case opt_chunkOverlap p of None \<Rightarrow> chunkOverlap d | Some v \<Rightarrow> v),
      minChunkSize = (case opt_minChunkSize p of None \<Rightarrow> minChunkSize d | Some v \<Rightarrow> v),
      preserveParagraphs =
        (case opt_preserveParagraphs p of None \<Rightarrow> preserveParagraphs d | Some v \<Rightarrow> v)\<rparr>"


section \<open>The chunker\<close>

text \<open>
  \<open>createChunk\<close>; its first argument is the reading of \<open>Date.now()\<close> taken when
  the chunk is created.
\<close>

definition createChunk ::
  "int \<Rightarrow> string \<Rightarrow> int \<Rightarrow> int \<Rightarrow> int \<Rightarrow> source_kind \<Rightarrow> string \<Rightarrow> DocumentChunk" where
  "createChunk now c i s e src ttl =
     \<lparr>chunk_id = ''chunk-'' @ show_int now @ ''-'' @ show_int i,
      documentId = '''',
      content = c,
      index = i,
      startIndex = s,
      endIndex = e,
      metadata = \<lparr>wordCount = split_ws_length c, charCount = int (length c),
                  source = src, documentTitle = ttl\<rparr>\<rparr>"

text \<open>The normalisation at the head of \<open>chunkText\<close>.\<close>

definition cleanText :: "string \<Rightarrow> string" where
  "cleanText t = trim (collapse_newlines (replace_cr (replace_crlf t)))"

text \<open>
  The end of the window that starts at \<open>startIndex\<close>: the hard cut, moved to a
  paragraph break or else to a sentence end when \<open>preserveParagraphs\<close> is set.
\<close>

definition chunkEnd :: "string \<Rightarrow> ChunkingOptions \<Rightarrow> int \<Rightarrow> int" where
  "chunkEnd ct opts start =
     (let e = min (start + chunkSize opts) (int (length ct)) in
      if preserveParagraphs opts \<and> e < int (length ct) then
        (let paragraphEnd = lastIndexOf ct [LF, LF] e in
         if paragraphEnd > start + minChunkSize opts then paragraphEnd + 2
         else
           (let sentenceEnd = lastIndexOf ct ''.'' e in
            if sentenceEnd > start + minChunkSize opts then sentenceEnd + 1 else e))
      else e)"

text \<open>
  The \<open>while\<close> loop of \<open>chunkText\<close>. Its state is \<open>startIndex\<close>, \<open>chunkIndex\<close> and
  the list \<open>chunks\<close>; \<open>now i\<close> is the reading of \<open>Date.now()\<close> when the chunk of
  index \<open>i\<close> is created. \<open>None\<close> is a loop that never exits.
\<close>

partial_function (option) chunkLoop ::
  "(int \<Rightarrow> int) \<Rightarrow> string \<Rightarrow> ChunkingOptions \<Rightarrow> int \<Rightarrow> int \<Rightarrow> DocumentChunk list
     \<Rightarrow> DocumentChunk list option" where
  "chunkLoop now ct opts start chunkIndex chunks =
     (if start < int (length ct) then
        (let e = chunkEnd ct opts start;
             chunkContent = trim (js_slice ct start e);
             emit = (int (length chunkContent) \<ge> minChunkSize opts);
             chunks' = (if emit
                        then chunks @ [createChunk (now chunkIndex) chunkContent chunkIndex
                                         start e Text ''Document'']
                        else chunks);
             chunkIndex' = (if emit then chunkIndex + 1 else chunkIndex);
             nextStart = max (e - chunkOverlap opts) (start + minChunkSize opts)
         in if nextStart \<ge> e then Some chunks'
            else chunkLoop now ct opts nextStart chunkIndex' chunks')
      else Some chunks)"

declare chunkLoop.simps [code]

definition chunkText ::
  "(int \<Rightarrow> int) \<Rightarrow> string \<Rightarrow> PartialChunkingOptions \<Rightarrow> DocumentChunk list option" where
  "chunkText now t options =
     (let opts = spread_options DEFAULT_CHUNKING_OPTIONS options in
      if trim t = [] then Some []
      else
        (let ct = cleanText t in
         if int (length ct) \<le> chunkSize opts
         then Some [createChunk (now 0) ct 0 0 (int (length ct)) Text ''Single Document'']
         else chunkLoop now ct opts 0 0 []))"


section \<open>Source extraction\<close>

text \<open>
  A value caught by \<open>catch (error)\<close>: an \<open>Error\<close> object with its message, or
  anything else. \<open>error_message\<close> is
  \<open>error instanceof Error ? error.message : 'Unknown error'\<close>.
\<close>

datatype thrown = ErrorObj string | OtherValue

fun error_message :: "thrown \<Rightarrow> string" where
  "error_message (ErrorObj m) = m"
| "error_message OtherValue = ''Unknown error''"

text \<open>
  The \<open>metadata\<close> object the extractors return (typed \<open>any\<close> in the source):
  the union of the properties they write, \<open>None\<close> for an absent one.
\<close>

record ExtractedMetadata =
  md_filename :: "string option"
  md_pageCount :: "int option"
  md_info :: "string option"
  md_version :: "string option"
  md_url :: "string option"
  md_contentType :: "string option"
  md_title :: "string option"

definition no_metadata :: ExtractedMetadata where
  "no_metadata =
     \<lparr>md_filename = None, md_pageCount = None, md_info = None, md_version = None,
      md_url = None, md_contentType = None, md_title = None\<rparr>"

record Extracted =
  ex_content :: string
  ex_metadata :: ExtractedMetadata

text \<open>What \<open>pdf-parse\<close> resolves to, and the part of a \<open>fetch\<close> response that is read.\<close>

record PdfData =
  pdf_text :: string
  pdf_numpages :: int
  pdf_info :: string
  pdf_version :: string

record Response =
  resp_ok :: bool
  resp_status :: int
  resp_statusText :: string
  resp_contentType :: "string option"
  resp_text :: "thrown + string"

text \<open>
  The outside world of the processor: the PDF parser (loaded by a dynamic import) and
  the network. \<open>Inl\<close> is a rejected promise or a thrown value.
\<close>

record World =
  pdf_parse :: "string \<Rightarrow> thrown + PdfData"
  fetch :: "string \<Rightarrow> thrown + Response"

definition processPDF :: "World \<Rightarrow> string \<Rightarrow> string \<Rightarrow> thrown + Extracted" where
  "processPDF w buffer filename =
     (case pdf_parse w buffer of
        Inl err \<Rightarrow> Inl (ErrorObj (''Failed to process PDF: '' @ error_message err))
      | Inr d \<Rightarrow>
          Inr \<lparr>ex_content = pdf_text d,
               ex_metadata = no_metadata
                 \<lparr>md_filename := Some filename, md_pageCount := Some (pdf_numpages d),
                  md_info := Some (pdf_info d), md_version := Some (pdf_version d)\<rparr>\<rparr>)"

text \<open>\<open>s.includes(pat)\<close>.\<close>

fun js_includes :: "string \<Rightarrow> string \<Rightarrow> bool" where
  "js_includes [] pat \<longleftrightarrow> pat = []"
| "js_includes (c # s) pat \<longleftrightarrow> take (length pat) (c # s) = pat \<or> js_includes s pat"

text \<open>
  Matching under the flag \<open>i\<close>: the patterns are lower-case ASCII letters and
  punctuation, which only their ASCII case variants match.
\<close>

definition lower_ascii :: "char \<Rightarrow> char" where
  "lower_ascii c =
     (if 65 \<le> (of_char c :: nat) \<and> (of_char c :: nat) \<le> 90
      then char_of ((of_char c :: nat) + 32) else c)"

definition ci_prefix :: "string \<Rightarrow> string \<Rightarrow> bool" where
  "ci_prefix pat s \<longleftrightarrow> map lower_ascii (take (length pat) s) = pat"

fun find_ci :: "string \<Rightarrow> string \<Rightarrow> nat option" where
  "find_ci pat [] = (if pat = [] then Some 0 else None)"
| "find_ci pat (c # s) =
     (if ci_prefix pat (c # s) then Some 0 else map_option Suc (find_ci pat s))"

text \<open>
  \<open>s.replace(/<script[^>]*>.*?<\/script>/gis, '')\<close> with \<open>opn = ''<script''\<close> and
  \<open>cls = ''</script>''\<close>, and the same for \<open>style\<close>: at an opening tag, the attributes
  run to the first \<open>>\<close>, the block to the first closing tag after it.
\<close>

function strip_blocks :: "string \<Rightarrow> string \<Rightarrow> string \<Rightarrow> string" where
  "strip_blocks opn cls [] = []"
| "strip_blocks opn cls (c # s) =
     (if ci_prefix opn (c # s) then
        (case dropWhile (\<lambda>x. x \<noteq> CHR ''>'') (drop (length opn) (c # s)) of
           [] \<Rightarrow> c # strip_blocks opn cls s
         | _ # body \<Rightarrow>
             (case find_ci cls body of
                None \<Rightarrow> c # strip_blocks opn cls s
              | Some k \<Rightarrow> strip_blocks opn cls (drop (k + length cls) body)))
      else c # strip_blocks opn cls s)"
  by pat_completeness auto
termination
proof (relation "measure (\<lambda>(opn, cls, s). length s)", goal_cases)
  case (4 opn cls c s x body k)
  have "length (dropWhile (\<lambda>x. x \<noteq> CHR ''>'') (drop (length opn) (c # s)))
          \<le> length (c # s)"
    by (rule order_trans [OF length_dropWhile_le]) simp
  with 4 show ?case by simp
qed simp_all

text \<open>\<open>s.replace(/<[^>]+>/g, ' ')\<close>.\<close>

function strip_tags :: "string \<Rightarrow> string" where
  "strip_tags [] = []"
| "strip_tags (c # s) =
     (if c = CHR ''<'' \<and> takeWhile (\<lambda>x. x \<noteq> CHR ''>'') s \<noteq> []
         \<and> dropWhile (\<lambda>x. x \<noteq> CHR ''>'') s \<noteq> []
      then CHR '' '' # strip_tags (tl (dropWhile (\<lambda>x. x \<noteq> CHR ''>'') s))
      else c # strip_tags s)"
  by pat_completeness auto
termination
proof (relation "measure length", goal_cases)
  case (2 c s)
  have "length (dropWhile (\<lambda>x. x \<noteq> CHR ''>'') s) \<le> length s"
    by (rule length_dropWhile_le)
  then show ?case by simp
qed simp_all

text \<open>\<open>s.replace(/\s+/g, ' ')\<close>.\<close>

function collapse_ws :: "string \<Rightarrow> string" where
  "collapse_ws [] = []"
| "collapse_ws (c # s) =
     (if is_ws c then CHR '' '' # collapse_ws (dropWhile is_ws s) else c # collapse_ws s)"
  by pat_completeness auto
termination
  by (relation "measure length") (auto simp: length_dropWhile_le less_Suc_eq_le)

text \<open>
  \<open>html.match(/<title[^>]*>([^<]+)<\/title>/i)?.[1]\<close>: the first capture group of
  the leftmost match.
\<close>

fun match_title :: "string \<Rightarrow> string option" where
  "match_title [] = None"
| "match_title (c # s) =
     (if ci_prefix ''<title'' (c # s) then
        (case dropWhile (\<lambda>x. x \<noteq> CHR ''>'') (drop 6 (c # s)) of
           [] \<Rightarrow> match_title s
         | _ # body \<Rightarrow>
             (if takeWhile (\<lambda>x. x \<noteq> CHR ''<'') body \<noteq> []
                 \<and> ci_prefix ''</title>'' (dropWhile (\<lambda>x. x \<noteq> CHR ''<'') body)
              then Some (takeWhile (\<lambda>x. x \<noteq> CHR ''<'') body)
              else match_title s))
      else match_title s)"

definition processURL :: "World \<Rightarrow> string \<Rightarrow> thrown + Extracted" where
  "processURL w u =
     (let failed = (\<lambda>err. Inl (ErrorObj (''Failed to process URL: '' @ error_message err)))
      in case fetch w u of
           Inl err \<Rightarrow> failed err
         | Inr response \<Rightarrow>
             if \<not> resp_ok response
             then failed (ErrorObj (''HTTP '' @ show_int (resp_status response) @ '': ''
                                      @ resp_statusText response))
             else
               (let contentType =
                      (case resp_contentType response of None \<Rightarrow> [] | Some h \<Rightarrow> h)
                in if js_includes contentType ''text/html'' then
                     (case resp_text response of
                        Inl err \<Rightarrow> failed err
                      | Inr html \<Rightarrow>
                          Inr \<lparr>ex_content =
                                 trim (collapse_ws (strip_tags
                                   (strip_blocks ''<style'' ''</style>''
                                     (strip_blocks ''<script'' ''</script>'' html)))),
                               ex_metadata = no_metadata
                                 \<lparr>md_url := Some u, md_contentType := Some contentType,
                                  md_title := Some (case match_title html of
                                                      None \<Rightarrow> ''Untitled''
                                                    | Some t \<Rightarrow> t)\<rparr>\<rparr>)
                   else if js_includes contentType ''text/'' then
                     (case resp_text response of
                        Inl err \<Rightarrow> failed err
                      | Inr body \<Rightarrow>
                          Inr \<lparr>ex_content = body,
                               ex_metadata = no_metadata
                                 \<lparr>md_url := Some u, md_contentType := Some contentType\<rparr>\<rparr>)
                   else failed (ErrorObj (''Unsupported content type: '' @ contentType))))"


section \<open>The document assembler\<close>

text \<open>\<open>DocumentMetadata\<close> as built by \<open>{ ...metadata, processedAt, chunkCount }\<close>.\<close>

record DocumentMetadata =
  extracted :: ExtractedMetadata
  processedAt :: int
  chunkCount :: int

record Document =
  doc_id :: string
  title :: string
  doc_content :: string
  doc_source :: source_kind
  doc_metadata :: DocumentMetadata
  doc_chunks :: "DocumentChunk list option"
  status :: doc_status
  createdAt :: int
  updatedAt :: int

text \<open>
  \<open>DocumentProcessingResult\<close>; \<open>document = None\<close> is the empty object
  \<open>{} as Document\<close> of the failure branch.
\<close>

record DocumentProcessingResult =
  document :: "Document option"
  chunks :: "DocumentChunk list"
  success :: bool
  error :: "string option"
  processingTime :: int

datatype source_input =
    PdfInput string string
  | UrlInput string
  | TextInput string string

text \<open>
  The clock readings of one call of \<open>processDocument\<close>, in the order they are taken:
  \<open>startTime\<close>, the document id, the three \<open>new Date()\<close>, one reading for each
  chunk created, and the reading that closes \<open>processingTime\<close>.
\<close>

record Clock =
  t_start :: int
  t_id :: int
  t_processedAt :: int
  t_createdAt :: int
  t_updatedAt :: int
  t_chunk :: "int \<Rightarrow> int"
  t_end :: int

text \<open>
  The \<open>switch (source.type)\<close>: content, metadata, source kind and title of the
  input.
\<close>

definition extractSource ::
  "World \<Rightarrow> source_input \<Rightarrow> thrown + (string \<times> ExtractedMetadata \<times> source_kind \<times> string)" where
  "extractSource w src =
     (case src of
        PdfInput buffer filename \<Rightarrow>
          (case processPDF w buffer filename of
             Inl err \<Rightarrow> Inl err
           | Inr r \<Rightarrow> Inr (ex_content r, ex_metadata r, Pdf, filename))
      | UrlInput u \<Rightarrow>
          (case processURL w u of
             Inl err \<Rightarrow> Inl err
           | Inr r \<Rightarrow>
               Inr (ex_content r, ex_metadata r, Url,
                    (case md_title (ex_metadata r) of
                       None \<Rightarrow> u
                     | Some t \<Rightarrow> if t = [] then u else t)))
      | TextInput c ttl \<Rightarrow> Inr (c, no_metadata\<lparr>md_title := Some ttl\<rparr>, Text, ttl))"

text \<open>
  \<open>processDocument\<close>. The result is \<open>None\<close> when the chunking loop never exits;
  a missing \<open>chunkingOptions\<close> argument is \<open>None\<close> and chunks with the defaults.
\<close>

definition processDocument ::
  "Clock \<Rightarrow> World \<Rightarrow> source_input \<Rightarrow> PartialChunkingOptions option
     \<Rightarrow> DocumentProcessingResult option" where
  "processDocument clk w src chunkingOptions =
     (case extractSource w src of
        Inl err \<Rightarrow>
          Some \<lparr>document = None, chunks = [], success = False,
                error = Some (error_message err),
                processingTime = t_end clk - t_start clk\<rparr>
      | Inr (c, md, documentSource, ttl) \<Rightarrow>
          (let doc = \<lparr>doc_id = ''doc-'' @ show_int (t_id clk),
                      title = ttl,
                      doc_content = c,
                      doc_source = documentSource,
                      doc_metadata = \<lparr>extracted = md, processedAt = t_processedAt clk,
                                      chunkCount = 0\<rparr>,
                      doc_chunks = None,
                      status = Processing,
                      createdAt = t_createdAt clk,
                      updatedAt = t_updatedAt clk\<rparr>
           in case chunkText (t_chunk clk) c
                     (case chunkingOptions of None \<Rightarrow> no_options | Some p \<Rightarrow> p) of
                None \<Rightarrow> None
              | Some cs \<Rightarrow>
                  (let cs' = map (\<lambda>chunk. chunk
                                   \<lparr>documentId := doc_id doc,
                                    metadata := (metadata chunk)\<lparr>documentTitle := ttl\<rparr>\<rparr>) cs;
                       doc' = doc
                         \<lparr>doc_metadata := (doc_metadata doc)\<lparr>chunkCount := int (length cs')\<rparr>,
                          doc_chunks := Some cs',
                          status := Completed\<rparr>
                   in Some \<lparr>document = Some doc', chunks = cs', success = True,
                            error = None,
                            processingTime = t_end clk - t_start clk\<rparr>)))"


section \<open>The vector-store query\<close>

text \<open>
  Scores and thresholds are binary64 numbers, taken as the reals they denote (their
  comparisons are exact); NaN is outside the model. \<open>default_threshold\<close> is the
  number the literal \<open>0.3\<close> denotes.
\<close>

definition default_threshold :: real where
  "default_threshold = 5404319552844595 / 2 ^ 54"

record QueryOptions =
  topK :: "int option"
  threshold :: "real option"
  query_filter :: "(string \<rightharpoonup> string) option"
  includeMetadata :: "bool option"

text \<open>The argument of \<open>index.namespace(...).query\<close>.\<close>

record QueryRequest =
  req_vector :: "real list"
  req_topK :: int
  req_includeMetadata :: bool
  req_includeValues :: bool
  req_filter :: "(string \<rightharpoonup> string) option"

text \<open>A match of the response; \<open>score\<close> and \<open>metadata\<close> may be missing.\<close>

record ScoredMatch =
  match_id :: string
  match_score :: "real option"
  match_metadata :: "(string \<rightharpoonup> string) option"

record VectorSearchResult =
  res_id :: string
  res_score :: real
  res_metadata :: "(string \<rightharpoonup> string) option"
  res_content :: string

text \<open>\<open>options.topK || 5\<close> and \<open>options.threshold || 0.3\<close>: zero is falsy.\<close>

definition effective_topK :: "QueryOptions \<Rightarrow> int" where
  "effective_topK options =
     (case topK options of None \<Rightarrow> 5 | Some k \<Rightarrow> if k = 0 then 5 else k)"

definition effective_threshold :: "QueryOptions \<Rightarrow> real" where
  "effective_threshold options =
     (case threshold options of
        None \<Rightarrow> default_threshold
      | Some t \<Rightarrow> if t = 0 then default_threshold else t)"

definition query_request :: "real list \<Rightarrow> QueryOptions \<Rightarrow> QueryRequest" where
  "query_request queryVector options =
     \<lparr>req_vector = queryVector,
      req_topK = effective_topK options,
      req_includeMetadata = (includeMetadata options \<noteq> Some False),
      req_includeValues = False,
      req_filter = query_filter options\<rparr>"

text \<open>\<open>match.score && match.score >= threshold\<close>.\<close>

definition passes :: "real \<Rightarrow> ScoredMatch \<Rightarrow> bool" where
  "passes t m \<longleftrightarrow>
     (case match_score m of None \<Rightarrow> False | Some s \<Rightarrow> s \<noteq> 0 \<and> s \<ge> t)"

definition to_result :: "ScoredMatch \<Rightarrow> VectorSearchResult" where
  "to_result m =
     \<lparr>res_id = match_id m,
      res_score = (case match_score m of None \<Rightarrow> 0 | Some s \<Rightarrow> s),
      res_metadata = match_metadata m,
      res_content =
        (case match_metadata m of
           None \<Rightarrow> []
         | Some md \<Rightarrow> (case md ''content'' of None \<Rightarrow> [] | Some c \<Rightarrow> c))\<rparr>"

text \<open>
  \<open>queryVectors\<close>. The vector store is the function \<open>store\<close> from the request to
  the matches of its response, \<open>Inl\<close> when obtaining the client or the query throws;
  every such failure is rethrown as one fixed error.
\<close>

definition queryVectors ::
  "(QueryRequest \<Rightarrow> thrown + ScoredMatch list) \<Rightarrow> real list \<Rightarrow> QueryOptions
     \<Rightarrow> thrown + VectorSearchResult list" where
  "queryVectors store queryVector options =
     (case store (query_request queryVector options) of
        Inl err \<Rightarrow> Inl (ErrorObj ''Failed to retrieve relevant documents'')
      | Inr matches \<Rightarrow>
          Inr (map to_result
                 (List.filter (passes (effective_threshold options)) matches)))"


section \<open>Vocabulary for the properties\<close>

text \<open>
  One pass through the body of the loop, named part by part: the trimmed content of the
  window, whether it is kept, the next start position, and the accumulator and chunk
  index after the pass.
\<close>

definition window :: "string \<Rightarrow> ChunkingOptions \<Rightarrow> int \<Rightarrow> string" where
  "window ct opts start = trim (js_slice ct start (chunkEnd ct opts start))"

definition nextStart :: "string \<Rightarrow> ChunkingOptions \<Rightarrow> int \<Rightarrow> int" where
  "nextStart ct opts start =
     max (chunkEnd ct opts start - chunkOverlap opts) (start + minChunkSize opts)"

definition emits :: "string \<Rightarrow> ChunkingOptions \<Rightarrow> int \<Rightarrow> bool" where
  "emits ct opts start \<longleftrightarrow> minChunkSize opts \<le> int (length (window ct opts start))"

definition stepChunks ::
  "(int \<Rightarrow> int) \<Rightarrow> string \<Rightarrow> ChunkingOptions \<Rightarrow> int \<Rightarrow> int \<Rightarrow> DocumentChunk list
     \<Rightarrow> DocumentChunk list" where
  "stepChunks now ct opts start i acc =
     (if emits ct opts start
      then acc @ [createChunk (now i) (window ct opts start) i start
                       (chunkEnd ct opts start) Text ''Document'']
      else acc)"

definition stepIndex :: "string \<Rightarrow> ChunkingOptions \<Rightarrow> int \<Rightarrow> int \<Rightarrow> int" where
  "stepIndex ct opts start i = (if emits ct opts start then i + 1 else i)"

text \<open>A clock that stands still, for evaluating the processor on concrete inputs.\<close>

definition fixed_clock :: "int \<Rightarrow> int \<Rightarrow> int" where
  "fixed_clock t i = t"

text \<open>
  A sample world and clock for evaluating \<open>processDocument\<close>: the PDF parser returns
  the bytes it is given as one page of text, and the network is down.
\<close>

definition sample_world :: World where
  "sample_world =
     \<lparr>pdf_parse = (\<lambda>buffer. Inr \<lparr>pdf_text = buffer, pdf_numpages = 1, pdf_info = [],
                                      pdf_version = ''1.10.100''\<rparr>),
      fetch = (\<lambda>u. Inl (ErrorObj ''fetch failed''))\<rparr>"

definition sample_clock :: Clock where
  "sample_clock =
     \<lparr>t_start = 1000, t_id = 1001, t_processedAt = 1001, t_createdAt = 1001,
      t_updatedAt = 1001, t_chunk = fixed_clock 1002, t_end = 1005\<rparr>"

text \<open>
  Sample responses of the vector store: one that is not ordered by score, and one that
  is ordered and holds a zero score and a missing one.
\<close>

definition no_query_options :: QueryOptions where
  "no_query_options =
     \<lparr>topK = None, threshold = None, query_filter = None, includeMetadata = None\<rparr>"

definition unsorted_store :: "QueryRequest \<Rightarrow> thrown + ScoredMatch list" where
  "unsorted_store req =
     Inr [\<lparr>match_id = ''a'', match_score = Some (1 / 2), match_metadata = None\<rparr>,
          \<lparr>match_id = ''b'', match_score = Some (3 / 4), match_metadata = None\<rparr>]"

definition sorted_store :: "QueryRequest \<Rightarrow> thrown + ScoredMatch list" where
  "sorted_store req =
     Inr [\<lparr>match_id = ''a'', match_score = Some (3 / 4), match_metadata = None\<rparr>,
          \<lparr>match_id = ''b'', match_score = Some (1 / 2), match_metadata = None\<rparr>,
          \<lparr>match_id = ''c'', match_score = Some (1 / 8), match_metadata = None\<rparr>,
          \<lparr>match_id = ''d'', match_score = Some 0, match_metadata = None\<rparr>,
          \<lparr>match_id = ''e'', match_score = None, match_metadata = None\<rparr>]"

text \<open>
  The invariant of a chunk list over the normalized text \<open>ct\<close> it was cut from: the
  sequence indices count up from 0, the start offsets increase strictly, and every chunk
  is a non-empty range of \<open>ct\<close> whose trimmed slice is its content.
\<close>

definition chunk_list_invariant :: "string \<Rightarrow> DocumentChunk list \<Rightarrow> bool" where
  "chunk_list_invariant ct cs \<longleftrightarrow>
     map index cs = map int [0..<length cs]
     \<and> sorted_wrt (<) (map startIndex cs)
     \<and> (\<forall>c\<in>set cs. 0 \<le> startIndex c \<and> startIndex c < endIndex c
            \<and> endIndex c \<le> int (length ct)
            \<and> content c = trim (js_slice ct (startIndex c) (endIndex c)))"


section \<open>Facts about the string primitives\<close>

lemma dropWhile_none: "(\<And>x. x \<in> set xs \<Longrightarrow> \<not> P x) \<Longrightarrow> dropWhile P xs = xs"
  by (cases xs) auto

lemma trim_Nil_iff: "trim s = [] \<longleftrightarrow> (\<forall>c\<in>set s. is_ws c)"
proof
  assume "trim s = []"
  then have "dropWhile is_ws (rev (dropWhile is_ws s)) = []"
    by (simp add: trim_def)
  then have "\<forall>c\<in>set (dropWhile is_ws s). is_ws c"
    using dropWhile_eq_Nil_conv [of is_ws "rev (dropWhile is_ws s)"] by simp
  then have "dropWhile is_ws s = []"
    by (metis hd_dropWhile hd_in_set)
  then show "\<forall>c\<in>set s. is_ws c"
    using dropWhile_eq_Nil_conv [of is_ws s] by simp
next
  assume "\<forall>c\<in>set s. is_ws c"
  then show "trim s = []" by (auto simp: trim_def dest: set_dropWhileD)
qed

lemma length_trim_le: "length (trim s) \<le> length s"
proof -
  have "length (trim s) \<le> length (rev (dropWhile is_ws s))"
    unfolding trim_def length_rev [of "dropWhile is_ws (rev (dropWhile is_ws s))"]
    by (rule length_dropWhile_le)
  also have "\<dots> \<le> length s" by (simp add: length_dropWhile_le)
  finally show ?thesis .
qed

lemma last_dropWhile: "dropWhile P xs \<noteq> [] \<Longrightarrow> last (dropWhile P xs) = last xs"
  by (induction xs) (auto split: if_splits)

lemma trim_last: "trim s \<noteq> [] \<Longrightarrow> \<not> is_ws (last (trim s))"
  unfolding trim_def by (simp add: last_rev hd_dropWhile)

lemma trim_hd: "trim s \<noteq> [] \<Longrightarrow> \<not> is_ws (hd (trim s))"
proof -
  assume a: "trim s \<noteq> []"
  let ?d = "dropWhile is_ws s"
  from a have n: "dropWhile is_ws (rev ?d) \<noteq> []" by (simp add: trim_def)
  then have d: "?d \<noteq> []" by (cases ?d) simp_all
  have "hd (trim s) = last (dropWhile is_ws (rev ?d))"
    using n by (simp add: trim_def hd_rev)
  also have "\<dots> = last (rev ?d)" using n by (rule last_dropWhile)
  also have "\<dots> = hd ?d" using d by (simp add: last_rev)
  finally show ?thesis using d by (simp add: hd_dropWhile)
qed

lemma trim_fixed: "s \<noteq> [] \<Longrightarrow> \<not> is_ws (hd s) \<Longrightarrow> \<not> is_ws (last s) \<Longrightarrow> trim s = s"
proof -
  assume a: "s \<noteq> []" "\<not> is_ws (hd s)" "\<not> is_ws (last s)"
  then have 1: "dropWhile is_ws s = s" by (cases s) auto
  from a have "rev s \<noteq> []" "\<not> is_ws (hd (rev s))" by (simp_all add: hd_rev)
  then have 2: "dropWhile is_ws (rev s) = rev s" by (cases "rev s") auto
  show ?thesis by (simp add: trim_def 1 2)
qed

lemma trim_idem: "trim (trim s) = trim s"
proof (cases "trim s = []")
  case True
  then have "trim (trim s) = trim []" by simp
  also have "\<dots> = []" by (simp add: trim_def)
  finally show ?thesis using True by simp
next
  case False
  then show ?thesis by (intro trim_fixed trim_hd trim_last)
qed

lemma trim_no_ws: "\<forall>c\<in>set s. \<not> is_ws c \<Longrightarrow> trim s = s"
proof -
  assume a: "\<forall>c\<in>set s. \<not> is_ws c"
  have 1: "dropWhile is_ws s = s" by (rule dropWhile_none) (use a in auto)
  have 2: "dropWhile is_ws (rev s) = rev s" by (rule dropWhile_none) (use a in auto)
  show ?thesis by (simp add: trim_def 1 2)
qed

lemma is_ws_LF: "is_ws LF" by (simp add: is_ws_def)

lemma replace_crlf_ws: "\<forall>c\<in>set s. is_ws c \<Longrightarrow> \<forall>c\<in>set (replace_crlf s). is_ws c"
  by (induction s rule: replace_crlf.induct) (simp_all add: is_ws_LF)

lemma replace_cr_ws: "\<forall>c\<in>set s. is_ws c \<Longrightarrow> \<forall>c\<in>set (replace_cr s). is_ws c"
  by (induction s) (simp_all add: replace_cr_def is_ws_LF)

lemma length_replace_crlf: "length (replace_crlf s) \<le> length s"
  by (induction s rule: replace_crlf.induct) (simp_all add: le_SucI)

lemma collapse_newlines_ws:
  "\<forall>c\<in>set s. is_ws c \<Longrightarrow> \<forall>c\<in>set (collapse_newlines s). is_ws c"
proof (induction s rule: collapse_newlines.induct)
  case 1
  then show ?case by simp
next
  case (2 c s)
  show ?case
  proof (cases "c = LF")
    case True
    let ?run = "takeWhile (\<lambda>x. x = LF) (c # s)"
    let ?rest = "dropWhile (\<lambda>x. x = LF) (c # s)"
    have r: "\<forall>x\<in>set ?rest. is_ws x"
      using "2.prems" set_dropWhileD by fastforce
    have t: "\<forall>x\<in>set ?run. is_ws x"
      using "2.prems" set_takeWhileD by fastforce
    have ih: "\<forall>x\<in>set (collapse_newlines ?rest). is_ws x"
      using "2.IH"(1) [OF True refl refl r] .
    have eq: "collapse_newlines (c # s) =
        (if 3 \<le> length ?run then [LF, LF] else ?run) @ collapse_newlines ?rest"
      using True by (simp add: Let_def del: takeWhile.simps dropWhile.simps)
    show ?thesis unfolding eq using ih t
      by (simp add: is_ws_LF ball_Un del: takeWhile.simps dropWhile.simps)
  next
    case False
    have "\<forall>x\<in>set (collapse_newlines s). is_ws x"
      using "2.IH"(2) [OF False] "2.prems" by simp
    with False "2.prems" show ?thesis by simp
  qed
qed

lemma length_collapse_newlines: "length (collapse_newlines s) \<le> length s"
proof (induction s rule: collapse_newlines.induct)
  case 1
  then show ?case by simp
next
  case (2 c s)
  show ?case
  proof (cases "c = LF")
    case True
    let ?run = "takeWhile (\<lambda>x. x = LF) (c # s)"
    let ?rest = "dropWhile (\<lambda>x. x = LF) (c # s)"
    have split: "length ?run + length ?rest = length (c # s)"
      by (metis length_append takeWhile_dropWhile_id)
    have ih: "length (collapse_newlines ?rest) \<le> length ?rest"
      using "2.IH"(1) [OF True refl refl] .
    have eq: "collapse_newlines (c # s) =
        (if 3 \<le> length ?run then [LF, LF] else ?run) @ collapse_newlines ?rest"
      using True by (simp add: Let_def del: takeWhile.simps dropWhile.simps)
    have "length (if 3 \<le> length ?run then [LF, LF] else ?run) \<le> length ?run"
      by (simp del: takeWhile.simps)
    then show ?thesis unfolding eq length_append using ih split by linarith
  next
    case False
    with "2.IH"(2) [OF False] show ?thesis by simp
  qed
qed

lemma cleanText_Nil: "trim t = [] \<Longrightarrow> cleanText t = []"
  unfolding cleanText_def trim_Nil_iff
  by (intro collapse_newlines_ws replace_cr_ws replace_crlf_ws)

lemma length_cleanText: "length (cleanText t) \<le> length t"
proof -
  have "length (cleanText t) \<le> length (collapse_newlines (replace_cr (replace_crlf t)))"
    unfolding cleanText_def by (rule length_trim_le)
  also have "\<dots> \<le> length (replace_cr (replace_crlf t))" by (rule length_collapse_newlines)
  also have "\<dots> = length (replace_crlf t)" by (simp add: replace_cr_def)
  also have "\<dots> \<le> length t" by (rule length_replace_crlf)
  finally show ?thesis .
qed

lemma cleanText_trimmed: "trim (cleanText t) = cleanText t"
  unfolding cleanText_def by (rule trim_idem)

lemma js_slice_whole: "js_slice s 0 (int (length s)) = s"
  by (simp add: js_slice_def)

lemma js_slice_nonneg:
  "0 \<le> a \<Longrightarrow> 0 \<le> b \<Longrightarrow>
   js_slice s a b = take (nat (min b (int (length s)) - min a (int (length s))))
                      (drop (nat (min a (int (length s)))) s)"
  by (simp add: js_slice_def Let_def)

lemma js_slice_nonempty: "0 \<le> a \<Longrightarrow> 0 \<le> b \<Longrightarrow> js_slice s a b \<noteq> [] \<Longrightarrow> a < b"
  by (auto simp: js_slice_nonneg min_def split: if_splits)

lemma set_js_slice: "set (js_slice s a b) \<subseteq> set s"
  unfolding js_slice_def Let_def
  by (meson order_trans set_take_subset set_drop_subset)

lemma length_js_slice:
  "0 \<le> a \<Longrightarrow> a \<le> b \<Longrightarrow> b \<le> int (length s) \<Longrightarrow> length (js_slice s a b) = nat (b - a)"
  by (simp add: js_slice_nonneg min_def) linarith

lemma nat_one_plus: "nat (1 + int i) = Suc i"
  by simp

lemma search_back_cases:
  "search_back s pat i = - 1 \<or>
   (0 \<le> search_back s pat i \<and> search_back s pat i \<le> int i \<and>
    matches_at s pat (nat (search_back s pat i)))"
  by (induction i) (auto simp: nat_one_plus simp del: of_nat_Suc)

lemma matches_at_bound: "matches_at s pat i \<Longrightarrow> pat \<noteq> [] \<Longrightarrow> i + length pat \<le> length s"
proof -
  assume m: "matches_at s pat i" and "pat \<noteq> []"
  then have "length (take (length pat) (drop i s)) = length pat"
    by (simp add: matches_at_def)
  then show ?thesis using \<open>pat \<noteq> []\<close> by (cases pat) (auto simp: min_def split: if_splits)
qed

lemma lastIndexOf_cases:
  assumes "pat \<noteq> []"
  shows "lastIndexOf s pat p = - 1 \<or>
   (0 \<le> lastIndexOf s pat p \<and> lastIndexOf s pat p \<le> max p 0 \<and>
    lastIndexOf s pat p + int (length pat) \<le> int (length s) \<and>
    matches_at s pat (nat (lastIndexOf s pat p)))"
proof (cases "length s < length pat")
  case True
  then show ?thesis by (simp add: lastIndexOf_def)
next
  case False
  let ?i = "nat (min (max p 0) (int (length s) - int (length pat)))"
  have eq: "lastIndexOf s pat p = search_back s pat ?i"
    using False by (simp add: lastIndexOf_def)
  from search_back_cases [of s pat ?i] show ?thesis
  proof
    assume "search_back s pat ?i = - 1"
    then show ?thesis by (simp add: eq)
  next
    assume a: "0 \<le> search_back s pat ?i \<and> search_back s pat ?i \<le> int ?i \<and>
      matches_at s pat (nat (search_back s pat ?i))"
    then have "nat (search_back s pat ?i) + length pat \<le> length s"
      using matches_at_bound assms by blast
    with a False show ?thesis unfolding eq by auto
  qed
qed


text \<open>Normalisation keeps every character that is not white space.\<close>

lemma replace_crlf_keeps: "c \<in> set s \<Longrightarrow> \<not> is_ws c \<Longrightarrow> c \<in> set (replace_crlf s)"
proof (induction s rule: replace_crlf.induct)
  case (1 a b s)
  have "is_ws CR" "is_ws LF" by (simp_all add: is_ws_def)
  with 1 show ?case by (cases "a = CR \<and> b = LF") auto
qed simp_all

lemma replace_cr_keeps: "c \<in> set s \<Longrightarrow> \<not> is_ws c \<Longrightarrow> c \<in> set (replace_cr s)"
proof -
  assume a: "c \<in> set s" "\<not> is_ws c"
  have "is_ws CR" by (simp add: is_ws_def)
  with a have "c \<noteq> CR" by blast
  with a(1) show ?thesis unfolding replace_cr_def by force
qed

lemma collapse_newlines_keeps:
  "c \<in> set s \<Longrightarrow> \<not> is_ws c \<Longrightarrow> c \<in> set (collapse_newlines s)"
proof (induction s rule: collapse_newlines.induct)
  case 1
  then show ?case by simp
next
  case (2 x s)
  have ne: "c \<noteq> LF" using "2.prems"(2) is_ws_LF by blast
  show ?case
  proof (cases "x = LF")
    case True
    let ?run = "takeWhile (\<lambda>x. x = LF) (x # s)"
    let ?rest = "dropWhile (\<lambda>x. x = LF) (x # s)"
    have "set (x # s) = set ?run \<union> set ?rest"
      by (metis set_append takeWhile_dropWhile_id)
    with "2.prems"(1) have "c \<in> set ?run \<union> set ?rest" by blast
    moreover have "c \<notin> set ?run" using ne set_takeWhileD by fastforce
    ultimately have "c \<in> set ?rest" by blast
    from "2.IH"(1) [OF True refl refl this "2.prems"(2)]
    have ih: "c \<in> set (collapse_newlines ?rest)" .
    have eq: "collapse_newlines (x # s) =
        (if 3 \<le> length ?run then [LF, LF] else ?run) @ collapse_newlines ?rest"
      using True by (simp add: Let_def del: takeWhile.simps dropWhile.simps)
    show ?thesis unfolding eq using ih by simp
  next
    case False
    have "c \<in> set (x # collapse_newlines s)"
    proof (cases "c = x")
      case True
      then show ?thesis by simp
    next
      case ne': False
      with "2.prems"(1) have "c \<in> set s" by simp
      from "2.IH"(2) [OF False this "2.prems"(2)] show ?thesis by simp
    qed
    with False show ?thesis by simp
  qed
qed

lemma cleanText_nonblank: "trim t \<noteq> [] \<Longrightarrow> cleanText t \<noteq> []"
proof -
  assume "trim t \<noteq> []"
  then obtain c where c: "c \<in> set t" "\<not> is_ws c" by (auto simp: trim_Nil_iff)
  then have "c \<in> set (collapse_newlines (replace_cr (replace_crlf t)))"
    by (intro collapse_newlines_keeps replace_cr_keeps replace_crlf_keeps)
  with c(2) have "trim (collapse_newlines (replace_cr (replace_crlf t))) \<noteq> []"
    unfolding trim_Nil_iff by blast
  then show ?thesis by (simp add: cleanText_def)
qed


text \<open>A text without white space is its own normalized form, and holds no paragraph break.\<close>

lemma replace_crlf_id: "\<forall>c\<in>set s. c \<noteq> CR \<Longrightarrow> replace_crlf s = s"
  by (induction s rule: replace_crlf.induct) simp_all

lemma replace_cr_id: "\<forall>c\<in>set s. c \<noteq> CR \<Longrightarrow> replace_cr s = s"
  unfolding replace_cr_def by (induction s) simp_all

lemma collapse_newlines_id: "\<forall>c\<in>set s. c \<noteq> LF \<Longrightarrow> collapse_newlines s = s"
  by (induction s) simp_all

lemma cleanText_no_ws:
  assumes "\<forall>c\<in>set t. \<not> is_ws c"
  shows "cleanText t = t"
proof -
  have "is_ws CR" "is_ws LF" by (simp_all add: is_ws_def)
  with assms have "\<forall>c\<in>set t. c \<noteq> CR" "\<forall>c\<in>set t. c \<noteq> LF" by blast+
  then show ?thesis
    by (simp add: cleanText_def replace_crlf_id replace_cr_id collapse_newlines_id
          trim_no_ws assms)
qed

lemma search_back_none: "(\<And>i. \<not> matches_at s pat i) \<Longrightarrow> search_back s pat n = - 1"
  by (induction n) simp_all

lemma lastIndexOf_none: "(\<And>i. \<not> matches_at s pat i) \<Longrightarrow> lastIndexOf s pat p = - 1"
  by (simp add: lastIndexOf_def search_back_none)

lemma no_paragraph_break:
  assumes "LF \<notin> set s"
  shows "lastIndexOf s [LF, LF] p = - 1"
proof (rule lastIndexOf_none)
  fix i
  show "\<not> matches_at s [LF, LF] i"
  proof
    assume "matches_at s [LF, LF] i"
    then have "take (length [LF, LF]) (drop i s) = [LF, LF]"
      unfolding matches_at_def .
    then have "LF \<in> set (take (length [LF, LF]) (drop i s))"
      by (simp only: list.set insertI1)
    then have "LF \<in> set s" by (meson in_set_takeD in_set_dropD)
    with assms show False by blast
  qed
qed


text \<open>Trimming removes a paragraph break at the end of a slice.\<close>

lemma trim_snoc_ws:
  assumes "is_ws a" "is_ws b"
  shows "trim (xs @ [a, b]) = trim xs"
proof (cases "\<forall>c\<in>set xs. is_ws c")
  case True
  with assms have "\<forall>c\<in>set (xs @ [a, b]). is_ws c" by simp
  then have "trim (xs @ [a, b]) = []" by (simp only: trim_Nil_iff)
  moreover from True have "trim xs = []" by (simp only: trim_Nil_iff)
  ultimately show ?thesis by simp
next
  case False
  then obtain x where "x \<in> set xs" "\<not> is_ws x" by blast
  then have d: "dropWhile is_ws (xs @ [a, b]) = dropWhile is_ws xs @ [a, b]"
    by (rule dropWhile_append1)
  show ?thesis unfolding trim_def d using assms by simp
qed

lemma js_slice_paragraph:
  assumes s0: "0 \<le> s" and sp: "s \<le> p" and m: "matches_at ct [LF, LF] (nat p)"
  shows "js_slice ct s (p + 2) = js_slice ct s p @ [LF, LF]"
proof -
  have b: "nat p + 2 \<le> length ct" using matches_at_bound [OF m] by simp
  have "take (length [LF, LF]) (drop (nat p) ct) = [LF, LF]"
    using m unfolding matches_at_def .
  moreover have "length [LF, LF] = 2" by simp
  ultimately have t: "take 2 (drop (nat p) ct) = [LF, LF]" by (simp only:)
  from s0 sp b have 1: "js_slice ct s (p + 2) = take (nat (p + 2 - s)) (drop (nat s) ct)"
    by (simp add: js_slice_nonneg min_def)
  from s0 sp b have 2: "js_slice ct s p = take (nat (p - s)) (drop (nat s) ct)"
    by (simp add: js_slice_nonneg min_def)
  have "nat (p + 2 - s) = nat (p - s) + 2" using sp by simp
  then have "take (nat (p + 2 - s)) (drop (nat s) ct)
      = take (nat (p - s)) (drop (nat s) ct) @ take 2 (drop (nat (p - s)) (drop (nat s) ct))"
    by (simp only: take_add)
  also have "drop (nat (p - s)) (drop (nat s) ct) = drop (nat p) ct"
    using s0 sp by (simp add: nat_diff_distrib' add.commute)
  finally show ?thesis using 1 2 t by simp
qed

lemma length_js_slice_le: "0 \<le> a \<Longrightarrow> a \<le> b \<Longrightarrow> int (length (js_slice s a b)) \<le> b - a"
  by (simp add: js_slice_nonneg min_def) linarith


section \<open>Facts about the chunking loop\<close>

lemma chunkLoop_unfold:
  "chunkLoop now ct opts start i acc =
     (if start < int (length ct) then
        (if chunkEnd ct opts start \<le> nextStart ct opts start
         then Some (stepChunks now ct opts start i acc)
         else chunkLoop now ct opts (nextStart ct opts start) (stepIndex ct opts start i)
                (stepChunks now ct opts start i acc))
      else Some acc)"
  by (subst chunkLoop.simps)
     (simp add: Let_def window_def nextStart_def emits_def stepChunks_def stepIndex_def)

lemma chunkLoop_total:
  assumes "1 \<le> minChunkSize opts"
  shows "\<exists>r. chunkLoop now ct opts start i acc = Some r"
proof (induction "nat (int (length ct) - start)" arbitrary: start i acc rule: less_induct)
  case less
  show ?case
  proof (cases "start < int (length ct)")
    case False
    then show ?thesis by (subst chunkLoop_unfold) simp
  next
    case True
    show ?thesis
    proof (cases "chunkEnd ct opts start \<le> nextStart ct opts start")
      case True
      with \<open>start < int (length ct)\<close> show ?thesis by (subst chunkLoop_unfold) simp
    next
      case False
      have "start < nextStart ct opts start"
        using assms by (simp add: nextStart_def)
      with True have "nat (int (length ct) - nextStart ct opts start)
                        < nat (int (length ct) - start)" by linarith
      from less [OF this] False True show ?thesis
        by (subst chunkLoop_unfold) simp
    qed
  qed
qed

lemma chunkLoop_rule:
  assumes run: "chunkLoop now ct opts start i acc = Some r"
    and init: "I start i acc"
    and step: "\<And>s j a. I s j a \<Longrightarrow> s < int (length ct) \<Longrightarrow>
                 \<not> chunkEnd ct opts s \<le> nextStart ct opts s \<Longrightarrow>
                 I (nextStart ct opts s) (stepIndex ct opts s j) (stepChunks now ct opts s j a)"
  shows "\<exists>s j a. I s j a \<and>
           (if s < int (length ct)
            then chunkEnd ct opts s \<le> nextStart ct opts s \<and> r = stepChunks now ct opts s j a
            else r = a)"
proof -
  let ?Q = "\<lambda>res. \<exists>s j a. I s j a \<and>
           (if s < int (length ct)
            then chunkEnd ct opts s \<le> nextStart ct opts s \<and> res = stepChunks now ct opts s j a
            else res = a)"
  let ?P = "\<lambda>nw c ops s j a res.
              nw = now \<longrightarrow> c = ct \<longrightarrow> ops = opts \<longrightarrow> I s j a \<longrightarrow> ?Q res"
  have "?P now ct opts start i acc r"
  proof (rule chunkLoop.raw_induct [where P = ?P, OF _ run], goal_cases)
    case (1 loop nw c ops s j a res)
    show ?case
    proof (intro impI)
      assume eq: "nw = now" "c = ct" "ops = opts" and inv: "I s j a"
      note body = 1(2) [unfolded eq]
      show "?Q res"
      proof (cases "s < int (length ct)")
        case False
        with body have "res = a" by simp
        with inv False show ?thesis by auto
      next
        case True
        show ?thesis
        proof (cases "chunkEnd ct opts s \<le> nextStart ct opts s")
          case brk: True
          with body True
          have "res = stepChunks now ct opts s j a"
            by (simp add: Let_def window_def nextStart_def emits_def stepChunks_def
                  stepIndex_def split: if_splits)
          with inv True brk show ?thesis by auto
        next
          case False
          with body True
          have "loop now ct opts (nextStart ct opts s) (stepIndex ct opts s j)
                  (stepChunks now ct opts s j a) = Some res"
            by (simp add: Let_def window_def nextStart_def emits_def stepChunks_def
                  stepIndex_def split: if_splits)
          from 1(1) [OF this] step [OF inv True False] show ?thesis by simp
        qed
      qed
    qed
  qed
  with init show ?thesis by simp
qed

text \<open>A weaker form: what holds of the accumulator after every step holds of the result.\<close>

lemma chunkLoop_invariant:
  assumes run: "chunkLoop now ct opts start i acc = Some r"
    and init: "I start i acc"
    and step: "\<And>s j a. I s j a \<Longrightarrow> s < int (length ct) \<Longrightarrow>
                 I (nextStart ct opts s) (stepIndex ct opts s j) (stepChunks now ct opts s j a)"
  shows "\<exists>s j. I s j r"
proof -
  from chunkLoop_rule [of now ct opts start i acc r I, OF run init step]
  obtain s j a where inv: "I s j a"
    and ex: "if s < int (length ct)
            then chunkEnd ct opts s \<le> nextStart ct opts s \<and> r = stepChunks now ct opts s j a
            else r = a" by blast
  show ?thesis
  proof (cases "s < int (length ct)")
    case True
    with ex step [OF inv True] show ?thesis by auto
  next
    case False
    with ex inv show ?thesis by auto
  qed
qed

text \<open>Bounds on the end of a window.\<close>

lemma lastIndexOf_ge: "pat \<noteq> [] \<Longrightarrow> - 1 \<le> lastIndexOf s pat p"
  using lastIndexOf_cases [of pat s p] by linarith

lemma lastIndexOf_le:
  "pat \<noteq> [] \<Longrightarrow> lastIndexOf s pat p = - 1
     \<or> lastIndexOf s pat p + int (length pat) \<le> int (length s)"
  using lastIndexOf_cases [of pat s p] by blast

lemma chunkEnd_cases:
  "chunkEnd ct opts s = min (s + chunkSize opts) (int (length ct))
   \<or> (s + minChunkSize opts < lastIndexOf ct [LF, LF] (min (s + chunkSize opts) (int (length ct)))
       \<and> chunkEnd ct opts s
           = lastIndexOf ct [LF, LF] (min (s + chunkSize opts) (int (length ct))) + 2)
   \<or> (\<not> s + minChunkSize opts
            < lastIndexOf ct [LF, LF] (min (s + chunkSize opts) (int (length ct)))
       \<and> s + minChunkSize opts < lastIndexOf ct ''.'' (min (s + chunkSize opts) (int (length ct)))
       \<and> chunkEnd ct opts s
           = lastIndexOf ct ''.'' (min (s + chunkSize opts) (int (length ct))) + 1)"
  by (simp add: chunkEnd_def Let_def)

lemma chunkEnd_le:
  assumes "ct \<noteq> []"
  shows "chunkEnd ct opts s \<le> int (length ct)"
proof -
  from assms have "1 \<le> int (length ct)" by (cases ct) simp_all
  then show ?thesis
    using chunkEnd_cases [of ct opts s]
      lastIndexOf_le [of "[LF, LF]" ct "min (s + chunkSize opts) (int (length ct))"]
      lastIndexOf_le [of "''.''" ct "min (s + chunkSize opts) (int (length ct))"]
    by auto
qed

lemma chunkEnd_past_floor:
  assumes "minChunkSize opts \<le> 0" "0 < chunkSize opts" "s < int (length ct)"
  shows "s + minChunkSize opts < chunkEnd ct opts s"
  using chunkEnd_cases [of ct opts s] assms by auto

lemma chunkEnd_first_pos:
  assumes "1 \<le> chunkSize opts" "ct \<noteq> []"
  shows "1 \<le> chunkEnd ct opts 0"
proof -
  from assms(2) have "1 \<le> int (length ct)" by (cases ct) simp_all
  then show ?thesis
    using chunkEnd_cases [of ct opts 0] assms(1)
      lastIndexOf_ge [of "[LF, LF]" ct "min (0 + chunkSize opts) (int (length ct))"]
      lastIndexOf_ge [of "''.''" ct "min (0 + chunkSize opts) (int (length ct))"]
    by auto
qed

lemma chunkEnd_nonneg:
  assumes "0 \<le> s" "0 \<le> chunkSize opts"
  shows "0 \<le> chunkEnd ct opts s"
  using chunkEnd_cases [of ct opts s] assms
    lastIndexOf_ge [of "[LF, LF]" ct "min (s + chunkSize opts) (int (length ct))"]
    lastIndexOf_ge [of "''.''" ct "min (s + chunkSize opts) (int (length ct))"]
  by auto

text \<open>
  Without a positive minimum chunk size the floor on the next start does not advance:
  with a positive overlap and a positive chunk size the loop never exits.
\<close>

lemma chunkLoop_diverges:
  assumes min0: "minChunkSize opts \<le> 0" and ov: "0 < chunkOverlap opts"
    and cs: "0 < chunkSize opts" and s1: "start < int (length ct)" and ne: "ct \<noteq> []"
  shows "chunkLoop now ct opts start i acc = None"
proof (rule ccontr)
  assume "chunkLoop now ct opts start i acc \<noteq> None"
  then obtain r where run: "chunkLoop now ct opts start i acc = Some r" by blast
  let ?I = "\<lambda>(s::int) (j::int) (a::DocumentChunk list). s < int (length ct)"
  have "\<exists>s j a. ?I s j a \<and>
           (if s < int (length ct)
            then chunkEnd ct opts s \<le> nextStart ct opts s \<and> r = stepChunks now ct opts s j a
            else r = a)"
  proof (rule chunkLoop_rule [OF run, where I = ?I])
    show "?I start i acc" using s1 by simp
  next
    fix s j a
    assume "?I s j a" and "\<not> chunkEnd ct opts s \<le> nextStart ct opts s"
    then show "?I (nextStart ct opts s) (stepIndex ct opts s j)
                  (stepChunks now ct opts s j a)"
      using chunkEnd_le [OF ne, of opts s] by linarith
  qed
  then obtain s where s: "s < int (length ct)"
    and brk: "chunkEnd ct opts s \<le> nextStart ct opts s" by (auto split: if_splits)
  have "s + minChunkSize opts < chunkEnd ct opts s"
    using chunkEnd_past_floor [OF min0 cs s] .
  with brk ov show False by (simp add: nextStart_def)
qed

text \<open>With a minimum chunk size of at least one the loop exits.\<close>

lemma chunkText_total:
  assumes "1 \<le> minChunkSize (spread_options DEFAULT_CHUNKING_OPTIONS options)"
  shows "\<exists>cs. chunkText now t options = Some cs"
  using chunkLoop_total [OF assms] by (simp add: chunkText_def Let_def)

text \<open>Extending a chunk list that satisfies the invariant.\<close>

lemma chunk_list_invariant_Nil: "chunk_list_invariant ct []"
  by (simp add: chunk_list_invariant_def)

lemma chunk_list_invariant_snoc:
  assumes inv: "chunk_list_invariant ct a"
    and idx: "index c = int (length a)"
    and before: "\<forall>x\<in>set a. startIndex x < startIndex c"
    and ok: "0 \<le> startIndex c" "startIndex c < endIndex c" "endIndex c \<le> int (length ct)"
            "content c = trim (js_slice ct (startIndex c) (endIndex c))"
  shows "chunk_list_invariant ct (a @ [c])"
proof -
  from inv have i1: "map index a = map int [0..<length a]"
    and i2: "sorted_wrt (<) (map startIndex a)"
    and i3: "\<forall>c\<in>set a. 0 \<le> startIndex c \<and> startIndex c < endIndex c
            \<and> endIndex c \<le> int (length ct)
            \<and> content c = trim (js_slice ct (startIndex c) (endIndex c))"
    by (simp_all add: chunk_list_invariant_def)
  have 1: "map index (a @ [c]) = map int [0..<length (a @ [c])]"
    using i1 idx by simp
  have 2: "sorted_wrt (<) (map startIndex (a @ [c]))"
    using i2 before by (simp add: sorted_wrt_append)
  have 3: "\<forall>x\<in>set (a @ [c]). 0 \<le> startIndex x \<and> startIndex x < endIndex x
            \<and> endIndex x \<le> int (length ct)
            \<and> content x = trim (js_slice ct (startIndex x) (endIndex x))"
    using i3 ok by simp
  from 1 2 3 show ?thesis unfolding chunk_list_invariant_def by blast
qed

lemma trim_Nil [simp]: "trim [] = []"
  by (simp add: trim_def)

lemma emitted_window:
  assumes min1: "1 \<le> minChunkSize opts" and cs0: "0 \<le> chunkSize opts"
    and s0: "0 \<le> s" and em: "emits ct opts s"
  shows "s < chunkEnd ct opts s"
proof -
  from em min1 have "window ct opts s \<noteq> []" by (auto simp: emits_def)
  then have "js_slice ct s (chunkEnd ct opts s) \<noteq> []"
    unfolding window_def by auto
  with s0 chunkEnd_nonneg [OF s0 cs0] show ?thesis by (rule js_slice_nonempty)
qed


text \<open>
  The invariant of the chunk list, for the loop started on a non-empty text: with a
  minimum chunk size of at least one, and without one, where only a first window comes
  back.
\<close>

lemma loop_invariant_min1:
  assumes min1: "1 \<le> minChunkSize opts" and cs0: "0 \<le> chunkSize opts" and ne: "ct \<noteq> []"
    and loop: "chunkLoop now ct opts 0 0 [] = Some r"
  shows "chunk_list_invariant ct r"
proof -
  let ?I = "\<lambda>s j a. 0 \<le> s \<and> j = int (length a) \<and> chunk_list_invariant ct a
              \<and> (\<forall>x\<in>set a. startIndex x < s)"
  have "\<exists>s j. ?I s j r"
  proof (rule chunkLoop_invariant [OF loop, where I = ?I])
    show "?I 0 0 []" by (simp add: chunk_list_invariant_Nil)
  next
    fix s j a
    assume inv: "?I s j a" and lt: "s < int (length ct)"
    from inv have s0: "0 \<le> s" and j: "j = int (length a)"
      and ia: "chunk_list_invariant ct a" and bef: "\<forall>x\<in>set a. startIndex x < s"
      by simp_all
    have nx: "s < nextStart ct opts s" using min1 by (simp add: nextStart_def)
    show "?I (nextStart ct opts s) (stepIndex ct opts s j) (stepChunks now ct opts s j a)"
    proof (cases "emits ct opts s")
      case False
      with inv nx show ?thesis by (auto simp: stepChunks_def stepIndex_def)
    next
      case True
      let ?c = "createChunk (now j) (window ct opts s) j s (chunkEnd ct opts s)
                  Text ''Document''"
      have "chunk_list_invariant ct (a @ [?c])"
      proof (rule chunk_list_invariant_snoc [OF ia])
        show "index ?c = int (length a)" using j by (simp add: createChunk_def)
        show "\<forall>x\<in>set a. startIndex x < startIndex ?c"
          using bef by (simp add: createChunk_def)
        show "0 \<le> startIndex ?c" using s0 by (simp add: createChunk_def)
        show "startIndex ?c < endIndex ?c"
          using emitted_window [OF min1 cs0 s0 True] by (simp add: createChunk_def)
        show "endIndex ?c \<le> int (length ct)"
          using chunkEnd_le [OF ne] by (simp add: createChunk_def)
        show "content ?c = trim (js_slice ct (startIndex ?c) (endIndex ?c))"
          by (simp add: createChunk_def window_def)
      qed
      moreover have "\<forall>x\<in>set (a @ [?c]). startIndex x < nextStart ct opts s"
        using bef nx by (auto simp: createChunk_def)
      ultimately show ?thesis using True s0 nx j
        by (simp add: stepChunks_def stepIndex_def)
    qed
  qed
  then show ?thesis by blast
qed

lemma first_window_only:
  assumes min0: "minChunkSize opts \<le> 0" and cs: "1 \<le> chunkSize opts" and ne: "ct \<noteq> []"
    and run: "chunkLoop now ct opts 0 0 [] = Some r"
  shows "chunk_list_invariant ct r"
proof -
  have lt: "0 < int (length ct)" using ne by simp
  have ov: "chunkOverlap opts \<le> 0"
  proof (rule ccontr)
    assume "\<not> chunkOverlap opts \<le> 0"
    then have "chunkLoop now ct opts 0 0 [] = None"
      using chunkLoop_diverges [OF min0 _ _ lt ne] cs by simp
    with run show False by simp
  qed
  then have "chunkEnd ct opts 0 \<le> nextStart ct opts 0" by (simp add: nextStart_def)
  with run lt have r: "r = stepChunks now ct opts 0 0 []"
    by (subst (asm) chunkLoop_unfold) simp
  show ?thesis
  proof (cases "emits ct opts 0")
    case False
    with r show ?thesis by (simp add: stepChunks_def chunk_list_invariant_Nil)
  next
    case True
    let ?c = "createChunk (now 0) (window ct opts 0) 0 0 (chunkEnd ct opts 0) Text ''Document''"
    have "chunk_list_invariant ct ([] @ [?c])"
    proof (rule chunk_list_invariant_snoc [OF chunk_list_invariant_Nil])
      show "index ?c = int (length [])" by (simp add: createChunk_def)
      show "\<forall>x\<in>set []. startIndex x < startIndex ?c" by simp
      show "0 \<le> startIndex ?c" by (simp add: createChunk_def)
      show "startIndex ?c < endIndex ?c"
        using chunkEnd_first_pos [OF cs ne] by (simp add: createChunk_def)
      show "endIndex ?c \<le> int (length ct)"
        using chunkEnd_le [OF ne] by (simp add: createChunk_def)
      show "content ?c = trim (js_slice ct (startIndex ?c) (endIndex ?c))"
        by (simp add: createChunk_def window_def)
    qed
    with r True show ?thesis by (simp add: stepChunks_def)
  qed
qed

text \<open>
  The accumulator only grows, and a text without white space that is one character
  longer than \<open>chunkSize\<close> fills two windows.
\<close>

lemma window_no_ws:
  assumes "\<forall>c\<in>set ct. \<not> is_ws c" and "0 \<le> s" and "s \<le> chunkEnd ct opts s"
    and "chunkEnd ct opts s \<le> int (length ct)"
  shows "int (length (window ct opts s)) = chunkEnd ct opts s - s"
proof -
  have "\<forall>c\<in>set (js_slice ct s (chunkEnd ct opts s)). \<not> is_ws c"
    using assms(1) set_js_slice by blast
  then have "window ct opts s = js_slice ct s (chunkEnd ct opts s)"
    unfolding window_def by (rule trim_no_ws)
  with assms(2-4) show ?thesis by (simp add: length_js_slice)
qed

lemma chunkLoop_grows:
  assumes run: "chunkLoop now ct opts s j a = Some r"
  shows "length a \<le> length r"
proof -
  let ?I = "\<lambda>(s::int) (j::int) (x::DocumentChunk list). length a \<le> length x"
  have "\<exists>s j. ?I s j r"
  proof (rule chunkLoop_invariant [OF run, where I = ?I])
    show "?I s j a" by simp
  next
    fix s j x
    assume "?I s j x"
    then show "?I (nextStart ct opts s) (stepIndex ct opts s j) (stepChunks now ct opts s j x)"
      by (simp add: stepChunks_def)
  qed
  then show ?thesis by simp
qed

lemma chunkLoop_emit_grows:
  assumes run: "chunkLoop now ct opts s j a = Some r"
    and lt: "s < int (length ct)" and em: "emits ct opts s"
  shows "Suc (length a) \<le> length r"
proof (cases "chunkEnd ct opts s \<le> nextStart ct opts s")
  case True
  with run lt have "r = stepChunks now ct opts s j a"
    by (subst (asm) chunkLoop_unfold) simp
  with em show ?thesis by (simp add: stepChunks_def)
next
  case False
  with run lt have "chunkLoop now ct opts (nextStart ct opts s) (stepIndex ct opts s j)
                      (stepChunks now ct opts s j a) = Some r"
    by (subst (asm) chunkLoop_unfold) simp
  from chunkLoop_grows [OF this] em show ?thesis by (simp add: stepChunks_def)
qed

lemma two_chunks:
  assumes nows: "\<forall>c\<in>set ct. \<not> is_ws c"
    and len: "int (length ct) = chunkSize opts + 1"
    and min1: "1 \<le> minChunkSize opts"
    and mo: "minChunkSize opts \<le> chunkOverlap opts"
    and mc: "minChunkSize opts < chunkSize opts"
    and m2: "2 * minChunkSize opts \<le> chunkSize opts + 1"
  shows "\<exists>r. chunkLoop now ct opts 0 0 [] = Some r \<and> 2 \<le> length r"
proof -
  from chunkLoop_total [OF min1] obtain r
    where run: "chunkLoop now ct opts 0 0 [] = Some r" by blast
  have ne: "ct \<noteq> []" using len mc min1 by auto
  have "is_ws LF" by (simp add: is_ws_def)
  with nows have noLF: "LF \<notin> set ct" by blast
  let ?e1 = "chunkEnd ct opts 0"
  have e1_le: "?e1 \<le> int (length ct)" by (rule chunkEnd_le [OF ne])
  have e1_gt: "minChunkSize opts < ?e1"
    using chunkEnd_cases [of ct opts 0] no_paragraph_break [OF noLF] len mc min1 by auto
  have em1: "emits ct opts 0"
    using window_no_ws [OF nows, of 0 opts] e1_le e1_gt min1 by (simp add: emits_def)
  let ?s1 = "nextStart ct opts 0"
  have s1_lo: "minChunkSize opts \<le> ?s1" by (simp add: nextStart_def)
  have s1_hi: "?s1 < ?e1" using e1_gt mo min1 by (simp add: nextStart_def)
  have s1_val: "?s1 = max (?e1 - chunkOverlap opts) (minChunkSize opts)"
    by (simp add: nextStart_def)
  have lt0: "0 < int (length ct)" using ne by simp
  from run lt0 s1_hi
  have run1: "chunkLoop now ct opts ?s1 (stepIndex ct opts 0 0) (stepChunks now ct opts 0 0 [])
                = Some r"
    by (subst (asm) chunkLoop_unfold) simp
  have lt1: "?s1 < int (length ct)" using s1_hi e1_le by linarith
  have e2: "chunkEnd ct opts ?s1 = int (length ct)"
    using s1_lo min1 len by (simp add: chunkEnd_def Let_def)
  have em2: "emits ct opts ?s1"
  proof -
    have "int (length (window ct opts ?s1)) = int (length ct) - ?s1"
      using window_no_ws [OF nows, of ?s1 opts] e2 lt1 s1_lo min1 by simp
    moreover have "minChunkSize opts \<le> int (length ct) - ?s1"
      using s1_val e1_le mo m2 len by linarith
    ultimately show ?thesis by (simp add: emits_def)
  qed
  from chunkLoop_emit_grows [OF run1 lt1 em2] em1
  have "2 \<le> length r" by (simp add: stepChunks_def)
  with run show ?thesis by blast
qed

text \<open>
  The content of a window is at most one character longer than \<open>chunkSize\<close>: the hard
  cut and the paragraph break stay within \<open>chunkSize\<close>, the sentence end may pass it
  by one.
\<close>

lemma window_length_le:
  assumes min0: "0 \<le> minChunkSize opts" and cs0: "0 \<le> chunkSize opts"
    and s0: "0 \<le> s" and lt: "s < int (length ct)"
  shows "int (length (window ct opts s)) \<le> chunkSize opts + 1"
proof -
  let ?e0 = "min (s + chunkSize opts) (int (length ct))"
  let ?p = "lastIndexOf ct [LF, LF] ?e0"
  let ?q = "lastIndexOf ct ''.'' ?e0"
  have e0: "s \<le> ?e0" "?e0 \<le> s + chunkSize opts" "0 \<le> ?e0" using cs0 lt s0 by auto
  from chunkEnd_cases [of ct opts s] consider
      (cut) "chunkEnd ct opts s = ?e0"
    | (par) "s + minChunkSize opts < ?p" "chunkEnd ct opts s = ?p + 2"
    | (sen) "s + minChunkSize opts < ?q" "chunkEnd ct opts s = ?q + 1"
    by blast
  then show ?thesis
  proof cases
    case cut
    have "int (length (window ct opts s)) \<le> int (length (js_slice ct s ?e0))"
      unfolding window_def cut using length_trim_le by simp
    also have "\<dots> \<le> ?e0 - s" by (rule length_js_slice_le [OF s0 e0(1)])
    finally show ?thesis using e0(2) by linarith
  next
    case par
    then have pos: "s \<le> ?p" "?p \<noteq> - 1" using min0 s0 by linarith+
    with lastIndexOf_cases [of "[LF, LF]" ct ?e0]
    have m: "matches_at ct [LF, LF] (nat ?p)" and ple: "?p \<le> ?e0" using e0(3) by auto
    have "window ct opts s = trim (js_slice ct s ?p @ [LF, LF])"
      unfolding window_def par(2) by (simp only: js_slice_paragraph [OF s0 pos(1) m])
    also have "\<dots> = trim (js_slice ct s ?p)"
      by (rule trim_snoc_ws) (simp_all add: is_ws_def)
    finally have "int (length (window ct opts s)) \<le> int (length (js_slice ct s ?p))"
      using length_trim_le by simp
    also have "\<dots> \<le> ?p - s" by (rule length_js_slice_le [OF s0 pos(1)])
    finally show ?thesis using ple e0(2) by linarith
  next
    case sen
    then have pos: "s \<le> ?q + 1" using min0 by linarith
    from sen min0 s0 have "?q \<noteq> - 1" by linarith
    with lastIndexOf_cases [of "''.''" ct ?e0] have qle: "?q \<le> ?e0" using e0(3) by auto
    have "int (length (window ct opts s)) \<le> int (length (js_slice ct s (?q + 1)))"
      unfolding window_def sen(2) using length_trim_le by simp
    also have "\<dots> \<le> ?q + 1 - s" by (rule length_js_slice_le [OF s0 pos])
    finally show ?thesis using qle e0(2) by linarith
  qed
qed

lemma chunk_length_at_most_chunkSize_plus_one:
  assumes run: "chunkText now t options = Some cs" and mem: "c \<in> set cs"
    and min0: "0 \<le> minChunkSize (spread_options DEFAULT_CHUNKING_OPTIONS options)"
    and cs0: "0 \<le> chunkSize (spread_options DEFAULT_CHUNKING_OPTIONS options)"
  shows "int (length (content c))
           \<le> chunkSize (spread_options DEFAULT_CHUNKING_OPTIONS options) + 1"
proof -
  let ?opts = "spread_options DEFAULT_CHUNKING_OPTIONS options"
  let ?ct = "cleanText t"
  show ?thesis
  proof (cases "trim t = [] \<or> int (length ?ct) \<le> chunkSize ?opts")
    case True
    with run mem show ?thesis
      by (auto simp: chunkText_def Let_def createChunk_def split: if_splits)
  next
    case False
    with run have loop: "chunkLoop now ?ct ?opts 0 0 [] = Some cs"
      by (simp add: chunkText_def Let_def)
    let ?I = "\<lambda>(s::int) (j::int) (a::DocumentChunk list).
                0 \<le> s \<and> (\<forall>x\<in>set a. int (length (content x)) \<le> chunkSize ?opts + 1)"
    have "\<exists>s j. ?I s j cs"
    proof (rule chunkLoop_invariant [OF loop, where I = ?I])
      show "?I 0 0 []" by simp
    next
      fix s j a
      assume inv: "?I s j a" and lt: "s < int (length ?ct)"
      then have s0: "0 \<le> s" by simp
      have "0 \<le> nextStart ?ct ?opts s" using s0 min0 unfolding nextStart_def by arith
      with inv window_length_le [OF min0 cs0 s0 lt]
      show "?I (nextStart ?ct ?opts s) (stepIndex ?ct ?opts s j)
               (stepChunks now ?ct ?opts s j a)"
        by (simp add: stepChunks_def createChunk_def)
    qed
    with mem show ?thesis by blast
  qed
qed

text \<open>Every chunk is created with the source kind \<open>Text\<close>.\<close>

lemma chunkText_source_Text:
  assumes run: "chunkText now t options = Some cs" and mem: "c \<in> set cs"
  shows "source (metadata c) = Text"
proof -
  let ?opts = "spread_options DEFAULT_CHUNKING_OPTIONS options"
  show ?thesis
  proof (cases "trim t = [] \<or> int (length (cleanText t)) \<le> chunkSize ?opts")
    case True
    with run mem show ?thesis
      by (auto simp: chunkText_def Let_def createChunk_def split: if_splits)
  next
    case False
    with run have loop: "chunkLoop now (cleanText t) ?opts 0 0 [] = Some cs"
      by (simp add: chunkText_def Let_def)
    let ?I = "\<lambda>(s::int) (j::int) (a::DocumentChunk list).
                \<forall>x\<in>set a. source (metadata x) = Text"
    have "\<exists>s j. ?I s j cs"
    proof (rule chunkLoop_invariant [OF loop, where I = ?I])
      show "?I 0 0 []" by simp
    next
      fix s j a
      assume "?I s j a"
      then show "?I (nextStart (cleanText t) ?opts s) (stepIndex (cleanText t) ?opts s j)
                    (stepChunks now (cleanText t) ?opts s j a)"
        by (simp add: stepChunks_def createChunk_def)
    qed
    with mem show ?thesis by blast
  qed
qed


section \<open>Facts about the assembler and the query\<close>

text \<open>
  What \<open>processDocument\<close> writes into the chunks: the document id and the title, and
  nothing else; the source kind stays the \<open>Text\<close> that \<open>chunkText\<close> put there.
\<close>

lemma processDocument_chunks:
  assumes "processDocument clk w src copts = Some res"
    and "document res = Some doc" and "c \<in> set (chunks res)"
  shows "documentId c = doc_id doc \<and> documentTitle (metadata c) = title doc
         \<and> source (metadata c) = Text"
  using assms
  by (auto simp: processDocument_def Let_def split: sum.splits option.splits prod.splits)
     (use chunkText_source_Text in blast)+

lemma default_threshold_pos: "0 < default_threshold"
  by (simp add: default_threshold_def)

lemma passes_score:
  "passes t m \<Longrightarrow> res_score (to_result m) \<noteq> 0 \<and> t \<le> res_score (to_result m)"
  by (auto simp: passes_def to_result_def split: option.splits)


section \<open>The single-chunk short-circuit\<close>

text \<open>
  Claim C1. For every input text whose normalized form (line endings unified, runs of
  three or more newlines collapsed to two, trimmed) is non-blank and no longer than
  \<open>chunkSize\<close>, \<open>chunkText\<close> returns exactly one chunk, whose content is the trimmed
  normalized text; nothing is assumed of \<open>minChunkSize\<close>, so this holds also when the
  text is shorter than \<open>minChunkSize\<close>.
\<close>

theorem single_chunk_short_circuit:
  assumes "cleanText t \<noteq> []"
    and "int (length (cleanText t))
           \<le> chunkSize (spread_options DEFAULT_CHUNKING_OPTIONS options)"
  shows "chunkText now t options =
           Some [createChunk (now 0) (cleanText t) 0 0 (int (length (cleanText t))) Text
                   ''Single Document'']
         \<and> content (createChunk (now 0) (cleanText t) 0 0 (int (length (cleanText t))) Text
                      ''Single Document'') = trim (cleanText t)"
proof -
  from assms(1) have "trim t \<noteq> []" using cleanText_Nil by blast
  with assms(2) show ?thesis
    by (simp add: chunkText_def Let_def createChunk_def cleanText_trimmed)
qed

theorem single_chunk_short_circuit_witness:
  "chunkText (fixed_clock 7) [CHR '' '', CHR ''h'', CHR ''i'', CR, LF, LF, LF]
     \<lparr>opt_chunkSize = Some 5, opt_chunkOverlap = None, opt_minChunkSize = Some 100,
      opt_preserveParagraphs = None\<rparr>
   = Some [createChunk 7 ''hi'' 0 0 2 Text ''Single Document'']"
proof -
  have ct: "cleanText [CHR '' '', CHR ''h'', CHR ''i'', CR, LF, LF, LF] = ''hi''"
    by code_simp
  have 1: "cleanText [CHR '' '', CHR ''h'', CHR ''i'', CR, LF, LF, LF] \<noteq> []"
    by (simp add: ct)
  have 2: "int (length (cleanText [CHR '' '', CHR ''h'', CHR ''i'', CR, LF, LF, LF]))
      \<le> chunkSize (spread_options DEFAULT_CHUNKING_OPTIONS
           \<lparr>opt_chunkSize = Some 5, opt_chunkOverlap = None, opt_minChunkSize = Some 100,
            opt_preserveParagraphs = None\<rparr>)"
    by (simp add: ct spread_options_def)
  from single_chunk_short_circuit [OF 1 2, of "fixed_clock 7"] show ?thesis
    by (simp add: ct fixed_clock_def)
qed


section \<open>The invariant of the chunk list\<close>

text \<open>
  Claim C2, as stated: for every input text and configuration, the chunks \<open>chunkText\<close>
  returns carry the sequence indices 0..n-1 in emission order with strictly increasing
  \<open>startIndex\<close>, every chunk has \<open>0 <= startIndex < endIndex <= length\<close> of the source
  text, and its content is the slice \<open>[startIndex, endIndex)\<close> of the source text,
  trimmed. With \<open>chunkSize = 0\<close> and \<open>minChunkSize = 0\<close> the text \<open>a\<close> gives one chunk
  with an empty content and \<open>startIndex = endIndex = 0\<close>, and with \<open>chunkSize = -1\<close> the
  text \<open>abc\<close> gives a chunk with \<open>endIndex = -1\<close>. The offsets are offsets into
  the normalized text: read against the text as it was passed in, the chunk of two blanks
  followed by \<open>ab\<close> has the range \<open>[0, 2)\<close>, which holds the two blanks, and the content
  \<open>ab\<close>.
\<close>

theorem chunk_list_invariant_counterexample:
  "chunkText (fixed_clock 7) ''a''
     \<lparr>opt_chunkSize = Some 0, opt_chunkOverlap = Some 0, opt_minChunkSize = Some 0,
      opt_preserveParagraphs = Some False\<rparr>
   = Some [createChunk 7 [] 0 0 0 Text ''Document'']
   \<and> startIndex (createChunk 7 [] 0 0 0 Text ''Document'') = 0
   \<and> endIndex (createChunk 7 [] 0 0 0 Text ''Document'') = 0
   \<and> \<not> chunk_list_invariant (cleanText ''a'') [createChunk 7 [] 0 0 0 Text ''Document'']
   \<and> chunkText (fixed_clock 7) ''  ab'' no_options
       = Some [createChunk 7 ''ab'' 0 0 2 Text ''Single Document'']
   \<and> trim (js_slice ''  ab'' 0 2) = []
   \<and> \<not> chunk_list_invariant ''  ab'' [createChunk 7 ''ab'' 0 0 2 Text ''Single Document'']
   \<and> chunkText (fixed_clock 7) ''abc''
     \<lparr>opt_chunkSize = Some (- 1), opt_chunkOverlap = Some 0, opt_minChunkSize = Some 1,
      opt_preserveParagraphs = Some False\<rparr>
   = Some [createChunk 7 ''ab'' 0 0 (- 1) Text ''Document'']
   \<and> \<not> chunk_list_invariant (cleanText ''abc'')
         [createChunk 7 ''ab'' 0 0 (- 1) Text ''Document'']"
proof (intro conjI)
  show "chunkText (fixed_clock 7) ''a''
     \<lparr>opt_chunkSize = Some 0, opt_chunkOverlap = Some 0, opt_minChunkSize = Some 0,
      opt_preserveParagraphs = Some False\<rparr>
   = Some [createChunk 7 [] 0 0 0 Text ''Document'']"
    by code_simp
  show "startIndex (createChunk 7 [] 0 0 0 Text ''Document'') = 0"
    by (simp add: createChunk_def)
  show "endIndex (createChunk 7 [] 0 0 0 Text ''Document'') = 0"
    by (simp add: createChunk_def)
  show "\<not> chunk_list_invariant (cleanText ''a'') [createChunk 7 [] 0 0 0 Text ''Document'']"
    by (simp add: chunk_list_invariant_def createChunk_def)
  show "chunkText (fixed_clock 7) ''  ab'' no_options
       = Some [createChunk 7 ''ab'' 0 0 2 Text ''Single Document'']"
    by code_simp
  show sl: "trim (js_slice ''  ab'' 0 2) = []"
    by code_simp
  show "\<not> chunk_list_invariant ''  ab'' [createChunk 7 ''ab'' 0 0 2 Text ''Single Document'']"
    by (simp add: chunk_list_invariant_def createChunk_def sl)
  show "chunkText (fixed_clock 7) ''abc''
     \<lparr>opt_chunkSize = Some (- 1), opt_chunkOverlap = Some 0, opt_minChunkSize = Some 1,
      opt_preserveParagraphs = Some False\<rparr>
   = Some [createChunk 7 ''ab'' 0 0 (- 1) Text ''Document'']"
    by code_simp
  show "\<not> chunk_list_invariant (cleanText ''abc'')
         [createChunk 7 ''ab'' 0 0 (- 1) Text ''Document'']"
    by (simp add: chunk_list_invariant_def createChunk_def)
qed

text \<open>
  Claim C2, amended. For every input text and every configuration with
  \<open>chunkSize >= 1\<close>, or with \<open>chunkSize = 0\<close> and \<open>minChunkSize >= 1\<close>: the chunks
  \<open>chunkText\<close> returns carry the sequence indices 0..n-1 in emission order with
  strictly increasing \<open>startIndex\<close>; every chunk has
  \<open>0 <= startIndex < endIndex <= length\<close> of the normalized text, and its content is the
  slice \<open>[startIndex, endIndex)\<close> of the normalized text, trimmed. And \<open>chunkText\<close> does
  return whenever \<open>minChunkSize >= 1\<close>.
\<close>

theorem chunk_list_invariant_holds:
  assumes cfg: "1 \<le> chunkSize (spread_options DEFAULT_CHUNKING_OPTIONS options)
                \<or> (chunkSize (spread_options DEFAULT_CHUNKING_OPTIONS options) = 0
                    \<and> 1 \<le> minChunkSize (spread_options DEFAULT_CHUNKING_OPTIONS options))"
  shows "(\<forall>cs. chunkText now t options = Some cs
               \<longrightarrow> chunk_list_invariant (cleanText t) cs)
         \<and> (1 \<le> minChunkSize (spread_options DEFAULT_CHUNKING_OPTIONS options)
               \<longrightarrow> (\<exists>cs. chunkText now t options = Some cs))"
proof (intro conjI allI impI)
  let ?opts = "spread_options DEFAULT_CHUNKING_OPTIONS options"
  let ?ct = "cleanText t"
  fix cs
  assume run: "chunkText now t options = Some cs"
  show "chunk_list_invariant ?ct cs"
  proof (cases "trim t = []")
    case True
    with run show ?thesis by (simp add: chunkText_def Let_def chunk_list_invariant_Nil)
  next
    case False
    then have ne: "?ct \<noteq> []" by (rule cleanText_nonblank)
    show ?thesis
    proof (cases "int (length ?ct) \<le> chunkSize ?opts")
      case True
      have "chunk_list_invariant ?ct
              [createChunk (now 0) ?ct 0 0 (int (length ?ct)) Text ''Single Document'']"
        using ne
        by (simp add: chunk_list_invariant_def createChunk_def js_slice_whole
              cleanText_trimmed)
      with True False run show ?thesis by (simp add: chunkText_def Let_def)
    next
      case big: False
      with run False have loop: "chunkLoop now ?ct ?opts 0 0 [] = Some cs"
        by (simp add: chunkText_def Let_def)
      show ?thesis
      proof (cases "1 \<le> minChunkSize ?opts")
        case True
        with cfg have "0 \<le> chunkSize ?opts" by linarith
        from loop_invariant_min1 [OF True this ne loop] show ?thesis .
      next
        case False
        with cfg have "minChunkSize ?opts \<le> 0" "1 \<le> chunkSize ?opts" by linarith+
        from first_window_only [OF this ne loop] show ?thesis .
      qed
    qed
  qed
next
  assume "1 \<le> minChunkSize (spread_options DEFAULT_CHUNKING_OPTIONS options)"
  then show "\<exists>cs. chunkText now t options = Some cs" by (rule chunkText_total)
qed

theorem chunk_list_invariant_holds_witness:
  "chunkText (fixed_clock 7) ''ab cd  ef gh. ij''
     \<lparr>opt_chunkSize = Some 6, opt_chunkOverlap = Some 2, opt_minChunkSize = Some 2,
      opt_preserveParagraphs = Some True\<rparr>
   = Some [createChunk 7 ''ab cd'' 0 0 6 Text ''Document'',
           createChunk 7 ''d  ef'' 1 4 10 Text ''Document'',
           createChunk 7 ''f gh.'' 2 8 13 Text ''Document'',
           createChunk 7 ''h. ij'' 3 11 16 Text ''Document'',
           createChunk 7 ''ij'' 4 14 16 Text ''Document'']
   \<and> chunk_list_invariant (cleanText ''ab cd  ef gh. ij'')
         [createChunk 7 ''ab cd'' 0 0 6 Text ''Document'',
           createChunk 7 ''d  ef'' 1 4 10 Text ''Document'',
           createChunk 7 ''f gh.'' 2 8 13 Text ''Document'',
           createChunk 7 ''h. ij'' 3 11 16 Text ''Document'',
           createChunk 7 ''ij'' 4 14 16 Text ''Document'']"
proof -
  let ?o = "\<lparr>opt_chunkSize = Some 6, opt_chunkOverlap = Some 2, opt_minChunkSize = Some 2,
      opt_preserveParagraphs = Some True\<rparr>"
  have run: "chunkText (fixed_clock 7) ''ab cd  ef gh. ij'' ?o
   = Some [createChunk 7 ''ab cd'' 0 0 6 Text ''Document'',
           createChunk 7 ''d  ef'' 1 4 10 Text ''Document'',
           createChunk 7 ''f gh.'' 2 8 13 Text ''Document'',
           createChunk 7 ''h. ij'' 3 11 16 Text ''Document'',
           createChunk 7 ''ij'' 4 14 16 Text ''Document'']"
    by code_simp
  have cfg: "1 \<le> chunkSize (spread_options DEFAULT_CHUNKING_OPTIONS ?o)
             \<or> (chunkSize (spread_options DEFAULT_CHUNKING_OPTIONS ?o) = 0
                 \<and> 1 \<le> minChunkSize (spread_options DEFAULT_CHUNKING_OPTIONS ?o))"
    by (simp add: spread_options_def)
  from chunk_list_invariant_holds [OF cfg, of "fixed_clock 7" "''ab cd  ef gh. ij''"] run
  show ?thesis by simp
qed


section \<open>The size of a chunk\<close>

text \<open>
  Claim C3. No chunk \<open>chunkText\<close> returns should have a content longer than
  \<open>chunkSize\<close> characters (the single-chunk short-circuit apart), also after the end
  of a window has been moved to a paragraph or sentence boundary. The search for the
  sentence end starts at the end of the window, not before it, so a full stop that sits
  exactly there extends the chunk by one character (and never by more, lemma
  \<open>chunk_length_at_most_chunkSize_plus_one\<close>): with \<open>chunkSize = 5\<close> the first chunk of
  \<open>abcde.fgh\<close> is the six characters \<open>abcde.\<close>.
\<close>

theorem sentence_snap_exceeds_chunkSize:
  "chunkText (fixed_clock 7) ''abcde.fgh''
     \<lparr>opt_chunkSize = Some 5, opt_chunkOverlap = Some 1, opt_minChunkSize = Some 1,
      opt_preserveParagraphs = Some True\<rparr>
   = Some [createChunk 7 ''abcde.'' 0 0 6 Text ''Document'',
           createChunk 7 ''.fgh'' 1 5 9 Text ''Document'',
           createChunk 7 ''h'' 2 8 9 Text ''Document'']
   \<and> \<not> int (length (content (createChunk 7 ''abcde.'' 0 0 6 Text ''Document''))) \<le> 5
   \<and> \<not> int (length (cleanText ''abcde.fgh'')) \<le> 5"
  by code_simp


section \<open>Termination\<close>

text \<open>
  Claim C4. For every input text and every configuration \<open>chunkText\<close> should
  terminate. It does when \<open>minChunkSize >= 1\<close> (lemma \<open>chunkText_total\<close>, whatever
  the overlap), and it does not with \<open>minChunkSize <= 0\<close>, a positive overlap and a
  text longer than a positive \<open>chunkSize\<close> (lemma \<open>chunkLoop_diverges\<close>): the start
  position never reaches the end of the text, as on the text \<open>abc\<close> here.
\<close>

theorem zero_minChunkSize_never_returns:
  "chunkText (fixed_clock 7) ''abc''
     \<lparr>opt_chunkSize = Some 2, opt_chunkOverlap = Some 1, opt_minChunkSize = Some 0,
      opt_preserveParagraphs = Some False\<rparr> = None"
proof -
  have ct: "cleanText ''abc'' = ''abc''" by code_simp
  have tr: "trim ''abc'' = ''abc''" by code_simp
  show ?thesis
    by (simp add: chunkText_def Let_def spread_options_def ct tr chunkLoop_diverges)
qed


section \<open>The boundaries of the length\<close>

text \<open>
  Claim C5, as stated: for every configuration, \<open>chunkText\<close> returns no chunk for the
  empty or a white-space-only input, exactly one chunk for an input of exactly
  \<open>chunkSize\<close> characters, and at least two chunks for an input one character longer
  than \<open>chunkSize\<close>. A blank input of exactly \<open>chunkSize\<close> characters gives no chunk;
  an input one character longer gives a single chunk when normalisation shortens it,
  when the rest after the first window is shorter than \<open>minChunkSize\<close> (an overlap below
  \<open>minChunkSize\<close>, or \<open>2 * minChunkSize > chunkSize + 1\<close>), and when
  \<open>minChunkSize = chunkSize\<close>.
\<close>

theorem length_boundaries_counterexample:
  "chunkText (fixed_clock 7) '' ''
     \<lparr>opt_chunkSize = Some 1, opt_chunkOverlap = None, opt_minChunkSize = None,
      opt_preserveParagraphs = None\<rparr> = Some []
   \<and> chunkText (fixed_clock 7) ''abcde ''
     \<lparr>opt_chunkSize = Some 5, opt_chunkOverlap = Some 1, opt_minChunkSize = Some 1,
      opt_preserveParagraphs = Some False\<rparr>
     = Some [createChunk 7 ''abcde'' 0 0 5 Text ''Single Document'']
   \<and> chunkText (fixed_clock 7) ''abcdef''
     \<lparr>opt_chunkSize = Some 5, opt_chunkOverlap = Some 1, opt_minChunkSize = Some 3,
      opt_preserveParagraphs = Some False\<rparr>
     = Some [createChunk 7 ''abcde'' 0 0 5 Text ''Document'']
   \<and> chunkText (fixed_clock 7) ''abcdef''
     \<lparr>opt_chunkSize = Some 5, opt_chunkOverlap = Some 4, opt_minChunkSize = Some 4,
      opt_preserveParagraphs = Some False\<rparr>
     = Some [createChunk 7 ''abcde'' 0 0 5 Text ''Document'']
   \<and> chunkText (fixed_clock 7) ''ab''
     \<lparr>opt_chunkSize = Some 1, opt_chunkOverlap = Some 1, opt_minChunkSize = Some 1,
      opt_preserveParagraphs = Some False\<rparr>
     = Some [createChunk 7 ''a'' 0 0 1 Text ''Document'']"
  by code_simp

text \<open>
  Claim C5, amended. For every configuration, \<open>chunkText\<close> returns no chunk for the
  empty or a white-space-only input, and exactly one chunk for a non-blank input of
  exactly \<open>chunkSize\<close> characters; for an input without white space that is one
  character longer than \<open>chunkSize\<close> it returns at least two chunks whenever
  \<open>1 <= minChunkSize <= chunkOverlap\<close>, \<open>minChunkSize < chunkSize\<close> and
  \<open>2 * minChunkSize <= chunkSize + 1\<close> (the defaults among them).
\<close>

theorem length_boundaries:
  "(trim t = [] \<longrightarrow> chunkText now t options = Some [])
   \<and> (trim t \<noteq> []
        \<and> int (length t) = chunkSize (spread_options DEFAULT_CHUNKING_OPTIONS options)
      \<longrightarrow> (\<exists>c. chunkText now t options = Some [c]))
   \<and> ((\<forall>ch\<in>set t. \<not> is_ws ch)
        \<and> int (length t) = chunkSize (spread_options DEFAULT_CHUNKING_OPTIONS options) + 1
        \<and> 1 \<le> minChunkSize (spread_options DEFAULT_CHUNKING_OPTIONS options)
        \<and> minChunkSize (spread_options DEFAULT_CHUNKING_OPTIONS options)
            \<le> chunkOverlap (spread_options DEFAULT_CHUNKING_OPTIONS options)
        \<and> minChunkSize (spread_options DEFAULT_CHUNKING_OPTIONS options)
            < chunkSize (spread_options DEFAULT_CHUNKING_OPTIONS options)
        \<and> 2 * minChunkSize (spread_options DEFAULT_CHUNKING_OPTIONS options)
            \<le> chunkSize (spread_options DEFAULT_CHUNKING_OPTIONS options) + 1
      \<longrightarrow> (\<exists>cs. chunkText now t options = Some cs \<and> 2 \<le> length cs))"
proof (intro conjI impI)
  assume "trim t = []"
  then show "chunkText now t options = Some []" by (simp add: chunkText_def Let_def)
next
  let ?opts = "spread_options DEFAULT_CHUNKING_OPTIONS options"
  assume a: "trim t \<noteq> [] \<and> int (length t) = chunkSize ?opts"
  have "int (length (cleanText t)) \<le> int (length t)" using length_cleanText by simp
  with a show "\<exists>c. chunkText now t options = Some [c]"
    by (simp add: chunkText_def Let_def)
next
  let ?opts = "spread_options DEFAULT_CHUNKING_OPTIONS options"
  assume a: "(\<forall>ch\<in>set t. \<not> is_ws ch)
        \<and> int (length t) = chunkSize ?opts + 1
        \<and> 1 \<le> minChunkSize ?opts
        \<and> minChunkSize ?opts \<le> chunkOverlap ?opts
        \<and> minChunkSize ?opts < chunkSize ?opts
        \<and> 2 * minChunkSize ?opts \<le> chunkSize ?opts + 1"
  then have nows: "\<forall>ch\<in>set t. \<not> is_ws ch" by blast
  then have ct: "cleanText t = t" by (rule cleanText_no_ws)
  from a have "t \<noteq> []" by auto
  with nows have tr: "trim t \<noteq> []" by (simp add: trim_no_ws)
  from a have big: "\<not> int (length t) \<le> chunkSize ?opts" by linarith
  from two_chunks [of t ?opts now] a
  obtain r where "chunkLoop now t ?opts 0 0 [] = Some r" "2 \<le> length r" by blast
  with tr big show "\<exists>cs. chunkText now t options = Some cs \<and> 2 \<le> length cs"
    by (simp add: chunkText_def Let_def ct)
qed

theorem length_boundaries_witness:
  "chunkText (fixed_clock 7) [CHR '' '', LF]
     \<lparr>opt_chunkSize = Some 2, opt_chunkOverlap = None, opt_minChunkSize = None,
      opt_preserveParagraphs = None\<rparr> = Some []
   \<and> (\<exists>c. chunkText (fixed_clock 7) ''abcde''
     \<lparr>opt_chunkSize = Some 5, opt_chunkOverlap = None, opt_minChunkSize = None,
      opt_preserveParagraphs = None\<rparr> = Some [c])
   \<and> (\<exists>cs. chunkText (fixed_clock 7) ''abcd.f''
     \<lparr>opt_chunkSize = Some 5, opt_chunkOverlap = Some 2, opt_minChunkSize = Some 2,
      opt_preserveParagraphs = None\<rparr> = Some cs \<and> 2 \<le> length cs)"
proof -
  let ?o1 = "\<lparr>opt_chunkSize = Some 2, opt_chunkOverlap = None, opt_minChunkSize = None,
      opt_preserveParagraphs = None\<rparr>"
  let ?o2 = "\<lparr>opt_chunkSize = Some 5, opt_chunkOverlap = None, opt_minChunkSize = None,
      opt_preserveParagraphs = None\<rparr>"
  let ?o3 = "\<lparr>opt_chunkSize = Some 5, opt_chunkOverlap = Some 2, opt_minChunkSize = Some 2,
      opt_preserveParagraphs = None\<rparr>"
  have h1: "trim [CHR '' '', LF] = []" by code_simp
  have h2: "trim ''abcde'' \<noteq> []
      \<and> int (length ''abcde'') = chunkSize (spread_options DEFAULT_CHUNKING_OPTIONS ?o2)"
    by (simp add: spread_options_def trim_def is_ws_def)
  have h3: "(\<forall>ch\<in>set ''abcd.f''. \<not> is_ws ch)
        \<and> int (length ''abcd.f'') = chunkSize (spread_options DEFAULT_CHUNKING_OPTIONS ?o3) + 1
        \<and> 1 \<le> minChunkSize (spread_options DEFAULT_CHUNKING_OPTIONS ?o3)
        \<and> minChunkSize (spread_options DEFAULT_CHUNKING_OPTIONS ?o3)
            \<le> chunkOverlap (spread_options DEFAULT_CHUNKING_OPTIONS ?o3)
        \<and> minChunkSize (spread_options DEFAULT_CHUNKING_OPTIONS ?o3)
            < chunkSize (spread_options DEFAULT_CHUNKING_OPTIONS ?o3)
        \<and> 2 * minChunkSize (spread_options DEFAULT_CHUNKING_OPTIONS ?o3)
            \<le> chunkSize (spread_options DEFAULT_CHUNKING_OPTIONS ?o3) + 1"
    by (simp add: spread_options_def is_ws_def)
  from length_boundaries [of "[CHR '' '', LF]" "fixed_clock 7" ?o1] h1
  have 1: "chunkText (fixed_clock 7) [CHR '' '', LF] ?o1 = Some []" by blast
  from length_boundaries [of "''abcde''" "fixed_clock 7" ?o2] h2
  have 2: "\<exists>c. chunkText (fixed_clock 7) ''abcde'' ?o2 = Some [c]" by blast
  from length_boundaries [of "''abcd.f''" "fixed_clock 7" ?o3] h3
  have 3: "\<exists>cs. chunkText (fixed_clock 7) ''abcd.f'' ?o3 = Some cs \<and> 2 \<le> length cs"
    by blast
  from 1 2 3 show ?thesis by blast
qed


section \<open>The minimum chunk size\<close>

text \<open>
  Claim C6. For every input text and configuration, every chunk that \<open>chunkText\<close>
  returns has a content of at least \<open>minChunkSize\<close> characters, or it is the only
  chunk of its document, produced by the single-chunk short-circuit (the normalized
  text is no longer than \<open>chunkSize\<close>).
\<close>

theorem minimum_size_guarantee:
  assumes run: "chunkText now t options = Some cs" and mem: "c \<in> set cs"
  shows "minChunkSize (spread_options DEFAULT_CHUNKING_OPTIONS options)
           \<le> int (length (content c))
         \<or> (cs = [c] \<and> int (length (cleanText t))
                \<le> chunkSize (spread_options DEFAULT_CHUNKING_OPTIONS options))"
proof -
  let ?opts = "spread_options DEFAULT_CHUNKING_OPTIONS options"
  show ?thesis
  proof (cases "trim t = []")
    case True
    with run mem show ?thesis by (simp add: chunkText_def Let_def)
  next
    case False
    show ?thesis
    proof (cases "int (length (cleanText t)) \<le> chunkSize ?opts")
      case True
      with run mem False show ?thesis by (auto simp: chunkText_def Let_def)
    next
      case big: False
      with run False have loop: "chunkLoop now (cleanText t) ?opts 0 0 [] = Some cs"
        by (simp add: chunkText_def Let_def)
      let ?I = "\<lambda>(s::int) (j::int) (a::DocumentChunk list).
                  \<forall>x\<in>set a. minChunkSize ?opts \<le> int (length (content x))"
      have "\<exists>s j. ?I s j cs"
      proof (rule chunkLoop_invariant [OF loop, where I = ?I])
        show "?I 0 0 []" by simp
      next
        fix s j a
        assume "?I s j a"
        then show "?I (nextStart (cleanText t) ?opts s) (stepIndex (cleanText t) ?opts s j)
                      (stepChunks now (cleanText t) ?opts s j a)"
          by (simp add: stepChunks_def emits_def createChunk_def)
      qed
      with mem show ?thesis by blast
    qed
  qed
qed

theorem minimum_size_guarantee_witness:
  "chunkText (fixed_clock 7) ''abcdefgh''
     \<lparr>opt_chunkSize = Some 4, opt_chunkOverlap = Some 2, opt_minChunkSize = Some 3,
      opt_preserveParagraphs = Some False\<rparr>
   = Some [createChunk 7 ''abcd'' 0 0 4 Text ''Document'',
           createChunk 7 ''defg'' 1 3 7 Text ''Document'']
   \<and> (3::int) \<le> int (length (content (createChunk 7 ''defg'' 1 3 7 Text ''Document'')))"
proof -
  have run: "chunkText (fixed_clock 7) ''abcdefgh''
     \<lparr>opt_chunkSize = Some 4, opt_chunkOverlap = Some 2, opt_minChunkSize = Some 3,
      opt_preserveParagraphs = Some False\<rparr>
   = Some [createChunk 7 ''abcd'' 0 0 4 Text ''Document'',
           createChunk 7 ''defg'' 1 3 7 Text ''Document'']"
    by code_simp
  have mem: "createChunk 7 ''defg'' 1 3 7 Text ''Document''
     \<in> set [createChunk 7 ''abcd'' 0 0 4 Text ''Document'',
             createChunk 7 ''defg'' 1 3 7 Text ''Document'']"
    by simp
  from minimum_size_guarantee [OF run mem] run show ?thesis
    by (simp add: spread_options_def createChunk_def)
qed


section \<open>The result of the assembler\<close>

text \<open>
  Claim C7. For every source input: if extraction and chunking complete without
  throwing, \<open>processDocument\<close> returns \<open>success = true\<close> with the document's status
  \<open>completed\<close> and \<open>metadata.chunkCount\<close> equal to the number of chunks; if a step
  throws, it returns \<open>{success: false, error: message}\<close> with an empty chunk list
  and the empty object in place of the document.
\<close>

theorem processDocument_result_contract:
  "(\<forall>c md k ttl cs.
      extractSource w src = Inr (c, md, k, ttl) \<longrightarrow>
      chunkText (t_chunk clk) c (case copts of None \<Rightarrow> no_options | Some p \<Rightarrow> p) = Some cs \<longrightarrow>
      (\<exists>res doc.
         processDocument clk w src copts = Some res \<and> success res \<and> error res = None \<and>
         document res = Some doc \<and> status doc = Completed \<and>
         chunkCount (doc_metadata doc) = int (length (chunks res)) \<and>
         doc_chunks doc = Some (chunks res) \<and> length (chunks res) = length cs))
   \<and> (\<forall>err.
      extractSource w src = Inl err \<longrightarrow>
      processDocument clk w src copts =
        Some \<lparr>document = None, chunks = [], success = False,
              error = Some (error_message err),
              processingTime = t_end clk - t_start clk\<rparr>)"
  by (simp add: processDocument_def Let_def)

theorem processDocument_result_contract_witness:
  "(\<exists>res doc.
      processDocument sample_clock sample_world (TextInput ''hello'' ''Note'') None = Some res \<and>
      success res \<and> error res = None \<and> document res = Some doc \<and> status doc = Completed \<and>
      chunkCount (doc_metadata doc) = int (length (chunks res)) \<and>
      doc_chunks doc = Some (chunks res) \<and> length (chunks res) = 1)
   \<and> processDocument sample_clock sample_world (UrlInput ''http://example.org'') None =
        Some \<lparr>document = None, chunks = [], success = False,
              error = Some ''Failed to process URL: fetch failed'',
              processingTime = 5\<rparr>"
proof -
  have e1: "extractSource sample_world (TextInput ''hello'' ''Note'')
              = Inr (''hello'', no_metadata\<lparr>md_title := Some ''Note''\<rparr>, Text, ''Note'')"
    by (simp add: extractSource_def)
  have c1: "chunkText (t_chunk sample_clock) ''hello''
              (case None of None \<Rightarrow> no_options | Some p \<Rightarrow> p)
            = Some [createChunk 1002 ''hello'' 0 0 5 Text ''Single Document'']"
    by code_simp
  have e2: "extractSource sample_world (UrlInput ''http://example.org'')
              = Inl (ErrorObj ''Failed to process URL: fetch failed'')"
    by (simp add: extractSource_def processURL_def sample_world_def)
  note t1 = processDocument_result_contract
              [of sample_world "TextInput ''hello'' ''Note''" sample_clock None,
               THEN conjunct1, rule_format, OF e1 c1]
  note t2 = processDocument_result_contract
              [of sample_world "UrlInput ''http://example.org''" sample_clock None,
               THEN conjunct2, rule_format, OF e2]
  from t1 t2 show ?thesis by (simp add: sample_clock_def)
qed


section \<open>What the chunks copy from their document\<close>

text \<open>
  Claim C8. For every document processed by \<open>processDocument\<close>, from a pdf, url or
  text source, every chunk's metadata should carry the document's source kind and
  title, and its \<open>documentId\<close> the document's id. The id and the title are copied
  (lemma \<open>processDocument_chunks\<close>), the source kind is not: the chunk of a PDF
  document is evaluated here and carries \<open>source = Text\<close> under \<open>doc_source = Pdf\<close>.
\<close>

theorem pdf_chunk_carries_text_source:
  "processDocument sample_clock sample_world (PdfInput ''hello'' ''a.pdf'') None =
     Some \<lparr>document = Some
             \<lparr>doc_id = ''doc-1001'', title = ''a.pdf'', doc_content = ''hello'',
              doc_source = Pdf,
              doc_metadata =
                \<lparr>extracted = \<lparr>md_filename = Some ''a.pdf'', md_pageCount = Some 1,
                               md_info = Some [], md_version = Some ''1.10.100'',
                               md_url = None, md_contentType = None, md_title = None\<rparr>,
                 processedAt = 1001, chunkCount = 1\<rparr>,
              doc_chunks = Some
                [\<lparr>chunk_id = ''chunk-1002-0'', documentId = ''doc-1001'',
                  content = ''hello'', index = 0, startIndex = 0, endIndex = 5,
                  metadata = \<lparr>wordCount = 1, charCount = 5, source = Text,
                              documentTitle = ''a.pdf''\<rparr>\<rparr>],
              status = Completed, createdAt = 1001, updatedAt = 1001\<rparr>,
           chunks =
             [\<lparr>chunk_id = ''chunk-1002-0'', documentId = ''doc-1001'',
               content = ''hello'', index = 0, startIndex = 0, endIndex = 5,
               metadata = \<lparr>wordCount = 1, charCount = 5, source = Text,
                           documentTitle = ''a.pdf''\<rparr>\<rparr>],
           success = True, error = None, processingTime = 5\<rparr>"
  by code_simp


section \<open>The results of a query\<close>

text \<open>
  Claim C9, as stated: for every query vector, options and vector-store response, the
  list \<open>queryVectors\<close> returns holds only results with \<open>score >= threshold\<close>, is
  ordered by descending score and holds at most \<open>topK\<close> items. It fails on a response
  that is not ordered and holds more than \<open>topK\<close> matches: the two matches come back
  as they were sent, the lower score first, under \<open>topK = 1\<close>.
\<close>

theorem query_results_counterexample:
  "queryVectors unsorted_store [] (no_query_options\<lparr>topK := Some 1\<rparr>) =
     Inr [\<lparr>res_id = ''a'', res_score = 1 / 2, res_metadata = None, res_content = []\<rparr>,
          \<lparr>res_id = ''b'', res_score = 3 / 4, res_metadata = None, res_content = []\<rparr>]
   \<and> (1 / 2 :: real) < 3 / 4
   \<and> \<not> sorted_wrt (\<lambda>x y. y \<le> x) [1 / 2, 3 / 4 :: real]
   \<and> \<not> length [1 / 2, 3 / 4 :: real] \<le> 1"
proof (intro conjI)
  show "queryVectors unsorted_store [] (no_query_options\<lparr>topK := Some 1\<rparr>) =
     Inr [\<lparr>res_id = ''a'', res_score = 1 / 2, res_metadata = None, res_content = []\<rparr>,
          \<lparr>res_id = ''b'', res_score = 3 / 4, res_metadata = None, res_content = []\<rparr>]"
    by (simp add: queryVectors_def unsorted_store_def no_query_options_def to_result_def
        passes_def effective_threshold_def default_threshold_def)
  show "(1 / 2 :: real) < 3 / 4" by simp
  show "\<not> sorted_wrt (\<lambda>x y. y \<le> x) [1 / 2, 3 / 4 :: real]"
    by (simp only: sorted_wrt.simps list.set ball_simps) simp
  show "\<not> length [1 / 2, 3 / 4 :: real] \<le> 1" by simp
qed

text \<open>
  Claim C9, amended. For every query vector, options and vector-store response,
  \<open>queryVectors\<close> returns the matches of the response that pass the filter, in the
  order of the response, and every result has \<open>score >= (options.threshold || 0.3)\<close>;
  the list is ordered by descending score when the response is, and holds at most
  \<open>options.topK || 5\<close> items when the response does.
\<close>

theorem query_result_contract:
  assumes resp: "store (query_request queryVector options) = Inr ms"
  shows "\<exists>rs. queryVectors store queryVector options = Inr rs
           \<and> rs = map to_result (filter (passes (effective_threshold options)) ms)
           \<and> (\<forall>r\<in>set rs. effective_threshold options \<le> res_score r)
           \<and> (sorted_wrt (\<lambda>x y. y \<le> x) (map (\<lambda>m. res_score (to_result m)) ms)
                 \<longrightarrow> sorted_wrt (\<lambda>x y. y \<le> x) (map res_score rs))
           \<and> (int (length ms) \<le> effective_topK options
                 \<longrightarrow> int (length rs) \<le> effective_topK options)"
proof -
  let ?rs = "map to_result (filter (passes (effective_threshold options)) ms)"
  have run: "queryVectors store queryVector options = Inr ?rs"
    using resp by (simp add: queryVectors_def)
  have thr: "\<forall>r\<in>set ?rs. effective_threshold options \<le> res_score r"
    using passes_score by auto
  have srt: "sorted_wrt (\<lambda>x y. y \<le> x) (map res_score ?rs)"
    if "sorted_wrt (\<lambda>x y. y \<le> x) (map (\<lambda>m. res_score (to_result m)) ms)"
  proof -
    from that have "sorted_wrt (\<lambda>a b. res_score (to_result b) \<le> res_score (to_result a)) ms"
      by (simp add: sorted_wrt_map)
    then have "sorted_wrt (\<lambda>a b. res_score (to_result b) \<le> res_score (to_result a))
                 (filter (passes (effective_threshold options)) ms)"
      by (rule sorted_wrt_filter)
    then show ?thesis by (simp add: sorted_wrt_map)
  qed
  have len: "int (length ?rs) \<le> effective_topK options"
    if "int (length ms) \<le> effective_topK options"
  proof -
    have "length ?rs \<le> length ms" by simp
    with that show ?thesis by linarith
  qed
  from run thr srt len show ?thesis by blast
qed

theorem query_result_contract_witness:
  "queryVectors sorted_store [] no_query_options =
     Inr [\<lparr>res_id = ''a'', res_score = 3 / 4, res_metadata = None, res_content = []\<rparr>,
          \<lparr>res_id = ''b'', res_score = 1 / 2, res_metadata = None, res_content = []\<rparr>]
   \<and> sorted_wrt (\<lambda>x y. y \<le> x) [3 / 4, 1 / 2 :: real]
   \<and> effective_topK no_query_options = 5"
proof -
  have resp: "sorted_store (query_request [] no_query_options) =
     Inr [\<lparr>match_id = ''a'', match_score = Some (3 / 4), match_metadata = None\<rparr>,
          \<lparr>match_id = ''b'', match_score = Some (1 / 2), match_metadata = None\<rparr>,
          \<lparr>match_id = ''c'', match_score = Some (1 / 8), match_metadata = None\<rparr>,
          \<lparr>match_id = ''d'', match_score = Some 0, match_metadata = None\<rparr>,
          \<lparr>match_id = ''e'', match_score = None, match_metadata = None\<rparr>]"
    by (simp add: sorted_store_def)
  from query_result_contract [of sorted_store "[]" no_query_options, OF resp] show ?thesis
    by (simp add: to_result_def passes_def effective_threshold_def effective_topK_def
          default_threshold_def no_query_options_def)
qed


section \<open>Falsy options of a query\<close>

text \<open>
  Claim C10. In \<open>queryVectors\<close> the options are combined with \<open>||\<close>: a threshold of
  0 is replaced by the default 0.3 and a \<open>topK\<close> of 0 by the default 5, so a threshold
  of 0 does not switch the score filter off; and a match whose score is 0 or missing
  is never among the results, whatever the threshold.
\<close>

theorem falsy_option_defaulting:
  "(threshold options = Some 0 \<longrightarrow> effective_threshold options = default_threshold)
   \<and> (topK options = Some 0 \<longrightarrow> req_topK (query_request queryVector options) = 5)
   \<and> 0 < default_threshold
   \<and> (\<forall>ms. store (query_request queryVector options) = Inr ms \<longrightarrow>
        (\<exists>rs. queryVectors store queryVector options = Inr rs
           \<and> rs = map to_result (filter (passes (effective_threshold options)) ms)
           \<and> (\<forall>m\<in>set ms. match_score m = None \<or> match_score m = Some 0
                 \<longrightarrow> \<not> passes (effective_threshold options) m \<and> to_result m \<notin> set rs)
           \<and> (\<forall>r\<in>set rs. res_score r \<noteq> 0)
           \<and> (threshold options = Some 0
                 \<longrightarrow> (\<forall>r\<in>set rs. default_threshold \<le> res_score r))))"
proof (intro conjI allI impI)
  assume "threshold options = Some 0"
  then show "effective_threshold options = default_threshold"
    by (simp add: effective_threshold_def)
next
  assume "topK options = Some 0"
  then show "req_topK (query_request queryVector options) = 5"
    by (simp add: query_request_def effective_topK_def)
next
  show "0 < default_threshold" by (rule default_threshold_pos)
next
  fix ms
  assume resp: "store (query_request queryVector options) = Inr ms"
  let ?rs = "map to_result (filter (passes (effective_threshold options)) ms)"
  have run: "queryVectors store queryVector options = Inr ?rs"
    using resp by (simp add: queryVectors_def)
  have nz: "\<forall>r\<in>set ?rs. res_score r \<noteq> 0"
    using passes_score by auto
  have ex: "\<forall>m\<in>set ms. match_score m = None \<or> match_score m = Some 0
                 \<longrightarrow> \<not> passes (effective_threshold options) m \<and> to_result m \<notin> set ?rs"
  proof (intro ballI impI conjI)
    fix m :: ScoredMatch
    assume z: "match_score m = None \<or> match_score m = Some 0"
    then show "\<not> passes (effective_threshold options) m" by (auto simp: passes_def)
    from z have "res_score (to_result m) = 0" by (auto simp: to_result_def)
    with nz show "to_result m \<notin> set ?rs" by blast
  qed
  have dt: "\<forall>r\<in>set ?rs. default_threshold \<le> res_score r" if "threshold options = Some 0"
  proof -
    from that have "effective_threshold options = default_threshold"
      by (simp add: effective_threshold_def)
    then show ?thesis using passes_score by auto
  qed
  from run ex nz dt
  show "\<exists>rs. queryVectors store queryVector options = Inr rs
           \<and> rs = map to_result (filter (passes (effective_threshold options)) ms)
           \<and> (\<forall>m\<in>set ms. match_score m = None \<or> match_score m = Some 0
                 \<longrightarrow> \<not> passes (effective_threshold options) m \<and> to_result m \<notin> set rs)
           \<and> (\<forall>r\<in>set rs. res_score r \<noteq> 0)
           \<and> (threshold options = Some 0
                 \<longrightarrow> (\<forall>r\<in>set rs. default_threshold \<le> res_score r))"
    by blast
qed

theorem falsy_option_defaulting_witness:
  "effective_threshold (no_query_options\<lparr>threshold := Some 0, topK := Some 0\<rparr>)
     = default_threshold
   \<and> req_topK (query_request [] (no_query_options\<lparr>threshold := Some 0, topK := Some 0\<rparr>)) = 5
   \<and> queryVectors sorted_store [] (no_query_options\<lparr>threshold := Some 0, topK := Some 0\<rparr>) =
     Inr [\<lparr>res_id = ''a'', res_score = 3 / 4, res_metadata = None, res_content = []\<rparr>,
          \<lparr>res_id = ''b'', res_score = 1 / 2, res_metadata = None, res_content = []\<rparr>]"
proof -
  let ?o = "no_query_options\<lparr>threshold := Some 0, topK := Some 0\<rparr>"
  have t: "threshold ?o = Some 0" by simp
  have k: "topK ?o = Some 0" by simp
  have resp: "sorted_store (query_request [] ?o) =
     Inr [\<lparr>match_id = ''a'', match_score = Some (3 / 4), match_metadata = None\<rparr>,
          \<lparr>match_id = ''b'', match_score = Some (1 / 2), match_metadata = None\<rparr>,
          \<lparr>match_id = ''c'', match_score = Some (1 / 8), match_metadata = None\<rparr>,
          \<lparr>match_id = ''d'', match_score = Some 0, match_metadata = None\<rparr>,
          \<lparr>match_id = ''e'', match_score = None, match_metadata = None\<rparr>]"
    by (simp add: sorted_store_def)
  note th = falsy_option_defaulting [of ?o "[]" sorted_store]
  from th have 1: "effective_threshold ?o = default_threshold" using t by blast
  from th have 2: "req_topK (query_request [] ?o) = 5" using k by blast
  from th resp have 3: "\<exists>rs. queryVectors sorted_store [] ?o = Inr rs
           \<and> rs = map to_result (filter (passes (effective_threshold ?o))
     [\<lparr>match_id = ''a'', match_score = Some (3 / 4), match_metadata = None\<rparr>,
          \<lparr>match_id = ''b'', match_score = Some (1 / 2), match_metadata = None\<rparr>,
          \<lparr>match_id = ''c'', match_score = Some (1 / 8), match_metadata = None\<rparr>,
          \<lparr>match_id = ''d'', match_score = Some 0, match_metadata = None\<rparr>,
          \<lparr>match_id = ''e'', match_score = None, match_metadata = None\<rparr>])"
    by blast
  from 1 2 3 show ?thesis
    by (simp add: to_result_def passes_def default_threshold_def)
qed

end
